theory Spec2Isabelle
  imports Complex_Main "HOL-Library.Product_Lexorder"
begin

section \<open>Common modelling conventions\<close>

text \<open>
  The development embeds the mesh builder and the frustum lookup of the
  \<^verbatim>\<open>mesh::VisualMesh\<close> header and the mesh cache and the
  \<^verbatim>\<open>VisualMeshOp::Compute\<close> kernel of \<^verbatim>\<open>tf_op.cpp\<close>.

  \<^item> \<^verbatim>\<open>Scalar\<close> (float or double) is idealised as an exact rational: rounding,
    infinities and NaN are not modelled.
  \<^item> \<^verbatim>\<open>size_t\<close> indices are natural numbers; where the source subtracts from an
    unsigned size the 64 bit wrap-around is written out (\<open>size_t_sub\<close>).
    Conversions from \<^verbatim>\<open>size_t\<close> to \<^verbatim>\<open>int\<close> are taken to be exact (node counts
    below \<open>2^31\<close>).
  \<^item> Undefined behaviour of the source (reading a vector out of range, popping an
    empty vector, converting a negative scalar to an unsigned index) and thrown
    exceptions are values of type \<open>error\<close>; a computation that can fail returns
    \<open>error + 'a\<close>.
\<close>

datatype error =
    OutOfBounds
  | NegativeToUnsigned
  | PopEmpty
  | RuntimeError string
  | InvalidArgument string

text \<open>Bounds-checked \<^verbatim>\<open>operator[]\<close> of a vector.\<close>

definition vec_at :: "'a list \<Rightarrow> nat \<Rightarrow> error + 'a" where
  "vec_at xs i = (if i < length xs then Inr (xs ! i) else Inl OutOfBounds)"

text \<open>Unsigned 64 bit subtraction \<^verbatim>\<open>a - b\<close> on \<^verbatim>\<open>size_t\<close>.\<close>

definition size_t_sub :: "nat \<Rightarrow> nat \<Rightarrow> nat" where
  "size_t_sub a b = nat ((int a - int b) mod 2 ^ 64)"

text \<open>
  The loop \<^verbatim>\<open>for (size_t i = a; i < n; ++i) body\<close> over a state \<open>s\<close>; the first
  failing iteration ends the loop with its error.
\<close>

function for_loop :: "nat \<Rightarrow> nat \<Rightarrow> (nat \<Rightarrow> 's \<Rightarrow> error + 's) \<Rightarrow> 's \<Rightarrow> error + 's" where
  "for_loop i n body s =
     (if i < n
      then (case body i s of Inl e \<Rightarrow> Inl e | Inr s' \<Rightarrow> for_loop (Suc i) n body s')
      else Inr s)"
  by pat_completeness auto
termination
  by (relation "measure (\<lambda>(i, n, body, s). n - i)") auto

declare for_loop.simps [simp del]

section \<open>Mesh builder\<close>

text \<open>
  A node keeps its six relative neighbour indices in the order
  TL, TR, L, R, BL, BR. The ray of a node (trigonometry on scalars) takes no
  part in the neighbour graph and is left out of the model.
\<close>

record Node =
  neighbours :: "int list"

record Row =
  phi :: rat
  row_begin :: nat
  row_end :: nat

record Mesh =
  nodes :: "Node list"
  rows :: "Row list"

text \<open>
  One node of a row of \<open>steps\<close> nodes at position \<open>i\<close>: the left and right
  neighbours wrap around the row. The four vertical slots are uninitialised in
  the source; the model starts them at \<open>0\<close>.
\<close>

definition make_node :: "nat \<Rightarrow> nat \<Rightarrow> Node" where
  "make_node steps i =
     (let l = (if i = 0 then int steps - 1 else int i - 1);
          r = (if int i = int steps - 1 then 0 else int i + 1)
      in \<lparr>neighbours = [0, 0, l - int i, r - int i, 0, 0]\<rparr>)"

text \<open>
  The generation loop over the sorted \<open>(phi, steps)\<close> list: each entry appends
  one row record and its \<open>steps\<close> nodes to the table.
\<close>

fun generate :: "(rat \<times> nat) list \<Rightarrow> Node list \<Rightarrow> Row list \<Rightarrow> Node list \<times> Row list" where
  "generate [] lut rws = (lut, rws)"
| "generate ((ph, steps) # vs) lut rws =
     generate vs
       (lut @ map (make_node steps) [0..<steps])
       (rws @ [\<lparr>phi = ph, row_begin = length lut, row_end = length lut + steps\<rparr>])"

text \<open>The lambda \<^verbatim>\<open>link\<close>: sets slots \<open>offset\<close> and \<open>offset + 1\<close> of node \<open>i\<close>.\<close>

definition link :: "Node list \<Rightarrow> nat \<Rightarrow> rat \<Rightarrow> int \<Rightarrow> int \<Rightarrow> nat \<Rightarrow> error + Node list" where
  "link lut i pos start sz offset =
     (if length lut \<le> i then Inl OutOfBounds
      else
        let node = lut ! i;
            left = (pos > 1 / 2);
            o1 = start + \<lfloor>pos * of_int sz + (if left then 0 else 1)\<rfloor>
        in if o1 < 0 then Inl NegativeToUnsigned
           else if int (length lut) \<le> o1 then Inl OutOfBounds
           else
             let o2 = o1 + neighbours (lut ! nat o1) ! (2 + (if left then 1 else 0));
                 nb = (neighbours node)
                        [offset := (if left then o1 else o2) - int i,
                         offset + 1 := (if left then o2 else o1) - int i]
             in Inr (lut[i := node\<lparr>neighbours := nb\<rparr>]))"

text \<open>\<^verbatim>\<open>const int size = row.end - row.begin\<close>.\<close>

definition row_size :: "Row \<Rightarrow> int" where
  "row_size r = int (row_end r) - int (row_begin r)"

text \<open>Body of the loop over the nodes of a middle row \<open>r\<close>.\<close>

definition middle_node :: "Row \<Rightarrow> Row \<Rightarrow> Row \<Rightarrow> nat \<Rightarrow> Node list \<Rightarrow> error + Node list" where
  "middle_node prev current next i lut =
     (let pos = of_nat (i - row_begin current) / of_int (row_size current)
      in (case link lut i pos (int (row_begin prev)) (row_size prev) 0 of
            Inl e \<Rightarrow> Inl e
          | Inr lut' \<Rightarrow> link lut' i pos (int (row_begin next)) (row_size next) 4))"

text \<open>Body of the loop over the middle rows.\<close>

definition middle_row :: "Row list \<Rightarrow> nat \<Rightarrow> Node list \<Rightarrow> error + Node list" where
  "middle_row rws r lut =
     (case vec_at rws (r - 1) of Inl e \<Rightarrow> Inl e | Inr prev \<Rightarrow>
       (case vec_at rws r of Inl e \<Rightarrow> Inl e | Inr current \<Rightarrow>
         (case vec_at rws (r + 1) of Inl e \<Rightarrow> Inl e | Inr next \<Rightarrow>
            for_loop (row_begin current) (row_end current)
              (middle_node prev current next) lut)))"

text \<open>Body of the loop that links the first row to itself and to the second row.\<close>

definition front_node :: "Row list \<Rightarrow> Row \<Rightarrow> nat \<Rightarrow> Node list \<Rightarrow> error + Node list" where
  "front_node rws front i lut =
     (if length lut \<le> i then Inl OutOfBounds
      else
        let node = lut ! i;
            front_size = row_size front;
            index = int (i - row_begin front) + front_size div 2;
            pos = of_nat (i - row_begin front) / of_int front_size;
            nb = (neighbours node)
                   [0 := int (row_begin front) + index mod front_size - int i,
                    1 := int (row_begin front) + (index + 1) mod front_size - int i];
            lut' = lut[i := node\<lparr>neighbours := nb\<rparr>]
        in (case vec_at rws 1 of Inl e \<Rightarrow> Inl e | Inr r2 \<Rightarrow>
              link lut' i pos (int (row_begin r2)) (row_size r2) 4))"

text \<open>Body of the loop that links the last row to itself and to the row before it.\<close>

definition back_node :: "Row list \<Rightarrow> Row \<Rightarrow> nat \<Rightarrow> Node list \<Rightarrow> error + Node list" where
  "back_node rws back i lut =
     (if length lut \<le> i then Inl OutOfBounds
      else
        let node = lut ! i;
            back_size = row_size back;
            index = int (i - row_begin back) + back_size div 2;
            pos = of_nat (i - row_begin back) / of_int back_size;
            nb = (neighbours node)
                   [4 := int (row_begin back) + index mod back_size - int i,
                    5 := int (row_begin back) + (index + 1) mod back_size - int i];
            lut' = lut[i := node\<lparr>neighbours := nb\<rparr>]
        in (case vec_at rws (size_t_sub (length rws) 2) of Inl e \<Rightarrow> Inl e | Inr r2 \<Rightarrow>
              link lut' i pos (int (row_begin r2)) (row_size r2) 0))"

text \<open>
  The stitching part of the constructor, from the generated table on: the loop
  over the middle rows runs for \<open>1 \<le> r < rows.size() - 1\<close> with the bound computed
  on \<^verbatim>\<open>size_t\<close>, then the first and last rows are linked when there is a row.
\<close>

definition stitch :: "Node list \<Rightarrow> Row list \<Rightarrow> error + Mesh" where
  "stitch lut rws =
     (case for_loop 1 (size_t_sub (length rws) 1) (middle_row rws) lut of
        Inl e \<Rightarrow> Inl e
      | Inr lut1 \<Rightarrow>
          if rws \<noteq> [] then
            let front = hd rws; back = last rws in
            (case for_loop (row_begin front) (row_end front) (front_node rws front) lut1 of
               Inl e \<Rightarrow> Inl e
             | Inr lut2 \<Rightarrow>
                 (case for_loop (row_begin back) (row_end back) (back_node rws back) lut2 of
                    Inl e \<Rightarrow> Inl e
                  | Inr lut3 \<Rightarrow> Inr \<lparr>nodes = lut3, rows = rws\<rparr>))
          else Inr \<lparr>nodes = lut1, rows = rws\<rparr>)"

text \<open>
  Building the mesh of one height from the sampled \<open>(phi, steps)\<close> pairs
  (the sampling of the shape is the caller's part): sort, generate, stitch.
\<close>

definition build_mesh :: "(rat \<times> nat) list \<Rightarrow> error + Mesh" where
  "build_mesh phis = (case generate (sort phis) [] [] of (lut, rws) \<Rightarrow> stitch lut rws)"

subsection \<open>Specification predicates for the neighbour graph\<close>

text \<open>
  \<open>link_rule lut i pos start sz slot\<close>: slots \<open>slot\<close> and \<open>slot + 1\<close> of node \<open>i\<close>
  hold the pair of links towards the row that starts at \<open>start\<close> and has \<open>sz\<close>
  nodes, for a node at fractional position \<open>pos\<close>: the first candidate \<open>o1\<close> is
  found with floor arithmetic, the second \<open>o2\<close> is reached from \<open>o1\<close> through that
  node's own R link when \<open>left\<close> holds and through its L link otherwise.
\<close>

definition link_rule :: "Node list \<Rightarrow> nat \<Rightarrow> rat \<Rightarrow> int \<Rightarrow> int \<Rightarrow> nat \<Rightarrow> bool" where
  "link_rule lut i pos start sz slot =
     (let left = (pos > 1 / 2);
          o1 = start + \<lfloor>pos * of_int sz + (if left then 0 else 1)\<rfloor>;
          o2 = o1 + neighbours (lut ! nat o1) ! (if left then 3 else 2)
      in 0 \<le> o1 \<and> o1 < int (length lut) \<and>
         neighbours (lut ! i) ! slot = (if left then o1 else o2) - int i \<and>
         neighbours (lut ! i) ! (slot + 1) = (if left then o2 else o1) - int i)"


text \<open>
  \<open>pole_links lut i row slot\<close>: slots \<open>slot\<close> and \<open>slot + 1\<close> of node \<open>i\<close>, at position
  \<open>p\<close> of a row of \<open>N\<close> nodes, point to the nodes of the same row at positions
  \<open>(p + N div 2) mod N\<close> and \<open>(p + N div 2 + 1) mod N\<close>.
\<close>

definition pole_links :: "Node list \<Rightarrow> nat \<Rightarrow> Row \<Rightarrow> nat \<Rightarrow> bool" where
  "pole_links lut i row slot =
     (let p = i - row_begin row; N = row_end row - row_begin row
      in neighbours (lut ! i) ! slot =
           int (row_begin row + (p + N div 2) mod N) - int i \<and>
         neighbours (lut ! i) ! (slot + 1) =
           int (row_begin row + (p + N div 2 + 1) mod N) - int i)"

text \<open>Position of node \<open>i\<close> in its row as a value between 0 and 1.\<close>

definition row_pos :: "Row \<Rightarrow> nat \<Rightarrow> rat" where
  "row_pos row i = of_nat (i - row_begin row) / of_int (row_size row)"

text \<open>
  \<open>touch K s t\<close>: table \<open>t\<close> differs from \<open>s\<close> at most in the nodes with index in
  \<open>K\<close>, and nowhere in the L and R slots or in the number of slots.
\<close>

definition touch :: "nat set \<Rightarrow> Node list \<Rightarrow> Node list \<Rightarrow> bool" where
  "touch K s t \<longleftrightarrow>
     length t = length s \<and>
     (\<forall>j<length s.
        (j \<notin> K \<longrightarrow> t ! j = s ! j) \<and>
        length (neighbours (t ! j)) = length (neighbours (s ! j)) \<and>
        neighbours (t ! j) ! 2 = neighbours (s ! j) ! 2 \<and>
        neighbours (t ! j) ! 3 = neighbours (s ! j) ! 3)"

definition six_slots :: "Node list \<Rightarrow> bool" where
  "six_slots s \<longleftrightarrow> (\<forall>j<length s. length (neighbours (s ! j)) = 6)"

text \<open>Rows are consecutive, non-overlapping index ranges inside the table.\<close>

definition rows_ok :: "Node list \<Rightarrow> Row list \<Rightarrow> bool" where
  "rows_ok lut rws \<longleftrightarrow>
     (\<forall>r<length rws. row_begin (rws ! r) \<le> row_end (rws ! r) \<and> row_end (rws ! r) \<le> length lut) \<and>
     (\<forall>r s. r < s \<and> s < length rws \<longrightarrow> row_end (rws ! r) \<le> row_begin (rws ! s))"

text \<open>
  Horizontal symmetry of a table: the L link of every node leads to a node whose
  R link leads back, and the other way round.
\<close>

definition lr_symmetric :: "Node list \<Rightarrow> bool" where
  "lr_symmetric s \<longleftrightarrow>
     (\<forall>i<length s.
        (let j = int i + neighbours (s ! i) ! 2
         in 0 \<le> j \<and> j < int (length s) \<and> j + neighbours (s ! nat j) ! 3 = int i) \<and>
        (let j = int i + neighbours (s ! i) ! 3
         in 0 \<le> j \<and> j < int (length s) \<and> j + neighbours (s ! nat j) ! 2 = int i))"

text \<open>
  Neighbour symmetry as the specification words it. Directions are the slot
  numbers \<open>0..5\<close> for TL, TR, L, R, BL, BR; the complementary direction of slot
  \<open>d\<close> is slot \<open>5 - d\<close>. \<open>neighbour_symmetric_at m i d\<close>: the node reached from
  \<open>i\<close> in direction \<open>d\<close> links back to \<open>i\<close> in the complementary direction.
  \<open>listed_by_neighbour m i d\<close> is the weaker reading: that node has \<open>i\<close> in any
  of its slots. \<open>pole_exception m i d\<close> is the documented exception: TL and TR on
  the first row, BL and BR on the last row.
\<close>

definition complementary :: "nat \<Rightarrow> nat" where
  "complementary d = 5 - d"

definition neighbour_symmetric_at :: "Mesh \<Rightarrow> nat \<Rightarrow> nat \<Rightarrow> bool" where
  "neighbour_symmetric_at m i d =
     (let j = int i + neighbours (nodes m ! i) ! d
      in 0 \<le> j \<and> j < int (length (nodes m)) \<and>
         j + neighbours (nodes m ! nat j) ! complementary d = int i)"

definition listed_by_neighbour :: "Mesh \<Rightarrow> nat \<Rightarrow> nat \<Rightarrow> bool" where
  "listed_by_neighbour m i d =
     (let j = int i + neighbours (nodes m ! i) ! d
      in 0 \<le> j \<and> j < int (length (nodes m)) \<and>
         int i \<in> set (map (\<lambda>x. j + x) (neighbours (nodes m ! nat j))))"

definition pole_exception :: "Mesh \<Rightarrow> nat \<Rightarrow> nat \<Rightarrow> bool" where
  "pole_exception m i d \<longleftrightarrow>
     rows m \<noteq> [] \<and>
     ((d \<in> {0, 1} \<and> row_begin (hd (rows m)) \<le> i \<and> i < row_end (hd (rows m))) \<or>
      (d \<in> {4, 5} \<and> row_begin (last (rows m)) \<le> i \<and> i < row_end (last (rows m))))"

section \<open>Frustum lookup\<close>

text \<open>
  The member \<^verbatim>\<open>luts\<close> is a \<^verbatim>\<open>std::map\<close> from heights to meshes: an association
  list in ascending key order. \<^verbatim>\<open>luts.lower_bound(height)\<close> is the first entry
  whose key is not less than the height, or the end iterator (\<open>None\<close>).
\<close>

definition lower_bound :: "(rat \<times> 'a) list \<Rightarrow> rat \<Rightarrow> (rat \<times> 'a) option" where
  "lower_bound luts h = find (\<lambda>(k, m). \<not> k < h) luts"

text \<open>\<^verbatim>\<open>VisualMesh::height\<close>: dereferences the iterator without comparing it to the end.\<close>

definition VisualMesh_height :: "(rat \<times> Mesh) list \<Rightarrow> rat \<Rightarrow> error + Mesh" where
  "VisualMesh_height luts h =
     (case lower_bound luts h of None \<Rightarrow> Inl OutOfBounds | Some (k, mesh) \<Rightarrow> Inr mesh)"

text \<open>The constant \<^verbatim>\<open>M_PI\<close>, as the exact value of the double nearest to pi.\<close>

definition M_PI :: rat where
  "M_PI = 884279719003555 / 281474976710656"

text \<open>Conversion of the result of \<^verbatim>\<open>std::ceil\<close> to \<^verbatim>\<open>size_t\<close>, undefined for a negative value.\<close>

definition to_size_t :: "int \<Rightarrow> error + nat" where
  "to_size_t c = (if c < 0 then Inl NegativeToUnsigned else Inr (nat c))"

text \<open>
  Body of the loop over the theta ranges of one row: converts a range to local
  indices and appends one range, two ranges (wrap-around) or nothing to the
  result vector \<open>indices\<close>.
\<close>

definition add_range :: "Row \<Rightarrow> rat \<times> rat \<Rightarrow> (nat \<times> nat) list \<Rightarrow> error + (nat \<times> nat) list" where
  "add_range row theta_range indices =
     (let rsize = size_t_sub (row_end row) (row_begin row)
      in case to_size_t \<lceil>of_nat rsize * fst theta_range * (1 / (2 * M_PI))\<rceil> of
           Inl e \<Rightarrow> Inl e
         | Inr begin0 \<Rightarrow>
             (case to_size_t \<lceil>of_nat rsize * snd theta_range * (1 / (2 * M_PI))\<rceil> of
                Inl e \<Rightarrow> Inl e
              | Inr end0 \<Rightarrow>
                  (let b = (if begin0 > rsize then 0 else begin0);
                       e = (if end0 > rsize then rsize else end0)
                   in if b \<noteq> e then
                        (if b < e
                         then Inr (indices @ [(row_begin row + b, row_begin row + e)])
                         else Inr (indices @ [(row_begin row, row_begin row + e),
                                              (row_begin row + b, row_end row)]))
                      else Inr indices)))"

fun ranges_loop :: "Row \<Rightarrow> (rat \<times> rat) list \<Rightarrow> (nat \<times> nat) list \<Rightarrow> error + (nat \<times> nat) list" where
  "ranges_loop row [] indices = Inr indices"
| "ranges_loop row (theta_range # ranges) indices =
     (case add_range row theta_range indices of
        Inl e \<Rightarrow> Inl e
      | Inr indices' \<Rightarrow> ranges_loop row ranges indices')"

text \<open>
  The loop over the rows of the mesh. The callable \<open>theta_limits\<close> may throw; the
  loop has no handler, so its error ends the loop.
\<close>

fun rows_loop ::
  "(rat \<Rightarrow> error + (rat \<times> rat) list) \<Rightarrow> Row list \<Rightarrow> (nat \<times> nat) list \<Rightarrow> error + (nat \<times> nat) list" where
  "rows_loop theta_limits [] indices = Inr indices"
| "rows_loop theta_limits (row # rws) indices =
     (case theta_limits (phi row) of
        Inl e \<Rightarrow> Inl e
      | Inr theta_ranges \<Rightarrow>
          (case ranges_loop row theta_ranges indices of
             Inl e \<Rightarrow> Inl e
           | Inr indices' \<Rightarrow> rows_loop theta_limits rws indices'))"

text \<open>\<^verbatim>\<open>VisualMesh::lookup(height, theta_limits)\<close>.\<close>

definition VisualMesh_lookup ::
  "(rat \<times> Mesh) list \<Rightarrow> rat \<Rightarrow> (rat \<Rightarrow> error + (rat \<times> rat) list) \<Rightarrow> error + Mesh \<times> (nat \<times> nat) list" where
  "VisualMesh_lookup luts h theta_limits =
     (case lower_bound luts h of
        None \<Rightarrow> Inl OutOfBounds
      | Some (k, mesh) \<Rightarrow>
          (case rows_loop theta_limits (rows mesh) [] of
             Inl e \<Rightarrow> Inl e
           | Inr indices \<Rightarrow> Inr (mesh, indices)))"


text \<open>
  The equirectangular \<open>theta_limits\<close> lambda. Its numerical stage (square roots
  and arc tangents on scalars) is a parameter: for the row's \<open>phi\<close> and each of
  the four frustum edges it yields either a non-positive discriminant
  (\<open>ComplexSolution\<close>) or the thetas of the accepted intersections, in the order
  they are pushed (none, one or two). \<open>same_side\<close> is the test
  \<^verbatim>\<open>(cos_phi > 0) == (cam[2] < 0)\<close>, \<open>external0\<close> tells whether the test vector at
  \<open>theta = 0\<close> has a negative dot product with an edge normal, and \<open>outside theta\<close>
  tells the same for the test vector at \<open>theta\<close>.
\<close>

datatype edge_solution = ComplexSolution | Intersections "rat list"

record frustum_numerics =
  edge_solutions :: "rat \<Rightarrow> nat \<Rightarrow> edge_solution"
  same_side :: "rat \<Rightarrow> bool"
  external0 :: "rat \<Rightarrow> bool"
  outside :: "rat \<Rightarrow> rat \<Rightarrow> bool"

text \<open>The loop over the four edges, on the pair (\<open>complex_sols\<close>, \<open>limits\<close>).\<close>

fun collect_limits :: "(nat \<Rightarrow> edge_solution) \<Rightarrow> nat list \<Rightarrow> nat \<times> rat list \<Rightarrow> nat \<times> rat list" where
  "collect_limits sol [] acc = acc"
| "collect_limits sol (i # is) (complex_sols, limits) =
     (case sol i of
        ComplexSolution \<Rightarrow> collect_limits sol is (complex_sols + 1, limits)
      | Intersections ts \<Rightarrow> collect_limits sol is (complex_sols, limits @ ts))"

text \<open>The loop \<^verbatim>\<open>for (i = ...; i < limits.size() - 1; i += 2)\<close> that pairs up the limits.\<close>

fun pair_up :: "rat list \<Rightarrow> (rat \<times> rat) list" where
  "pair_up (a # b # rest) = (a, b) # pair_up rest"
| "pair_up rest = []"

definition odd_intersections :: error where
  "odd_intersections = RuntimeError ''Odd number of intersections found with cone''"

definition equirectangular_theta_limits :: "frustum_numerics \<Rightarrow> rat \<Rightarrow> error + (rat \<times> rat) list" where
  "equirectangular_theta_limits num ph =
     (case collect_limits (edge_solutions num ph) [0, 1, 2, 3] (0, []) of
        (complex_sols, limits) \<Rightarrow>
          if complex_sols = 4 \<and> same_side num ph then
            (if \<not> external0 num ph then Inr [(0, 2 * M_PI)] else Inr [])
          else if limits \<noteq> [] then
            (if length limits mod 2 = 0 then
               (let sorted_limits = sort limits;
                    test_theta = (sorted_limits ! 0 + sorted_limits ! 1) * (1 / 2);
                    first_is_end = outside num ph test_theta;
                    output = pair_up (if first_is_end then drop 1 sorted_limits else sorted_limits)
                in Inr (if first_is_end
                        then output @ [(last sorted_limits, hd sorted_limits)]
                        else output))
             else Inl odd_intersections)
          else Inr [])"

text \<open>The equirectangular case of \<^verbatim>\<open>lookup(Hoc, lens)\<close>.\<close>

definition lookup_equirectangular ::
  "(rat \<times> Mesh) list \<Rightarrow> rat \<Rightarrow> frustum_numerics \<Rightarrow> error + Mesh \<times> (nat \<times> nat) list" where
  "lookup_equirectangular luts h num = VisualMesh_lookup luts h (equirectangular_theta_limits num)"

text \<open>
  The policy of the specification for an inconsistent row: the row is skipped and
  the loop goes on with the next row.
\<close>

fun spec_rows_loop ::
  "(rat \<Rightarrow> error + (rat \<times> rat) list) \<Rightarrow> Row list \<Rightarrow> (nat \<times> nat) list \<Rightarrow> error + (nat \<times> nat) list" where
  "spec_rows_loop theta_limits [] indices = Inr indices"
| "spec_rows_loop theta_limits (row # rws) indices =
     (case theta_limits (phi row) of
        Inl e \<Rightarrow> spec_rows_loop theta_limits rws indices
      | Inr theta_ranges \<Rightarrow>
          (case ranges_loop row theta_ranges indices of
             Inl e \<Rightarrow> Inl e
           | Inr indices' \<Rightarrow> spec_rows_loop theta_limits rws indices'))"

text \<open>
  The lookup under the policy of the specification (a row whose \<open>theta_limits\<close>
  fails is skipped), for comparison with \<open>VisualMesh_lookup\<close>.
\<close>

definition spec_lookup_skipping ::
  "(rat \<times> Mesh) list \<Rightarrow> rat \<Rightarrow> (rat \<Rightarrow> error + (rat \<times> rat) list) \<Rightarrow> error + Mesh \<times> (nat \<times> nat) list" where
  "spec_lookup_skipping luts h theta_limits =
     (case lower_bound luts h of
        None \<Rightarrow> Inl OutOfBounds
      | Some (k, mesh) \<Rightarrow>
          (case spec_rows_loop theta_limits (rows mesh) [] of
             Inl e \<Rightarrow> Inl e
           | Inr indices \<Rightarrow> Inr (mesh, indices)))"

section \<open>Mesh cache\<close>

text \<open>
  Modelled from the spec: the class \<^verbatim>\<open>visualmesh::Mesh\<close> of \<^verbatim>\<open>mesh/mesh.hpp\<close>, which
  is not part of the sources at hand. Of a cached mesh the cache reads the members
  \<^verbatim>\<open>h\<close> and \<^verbatim>\<open>max_distance\<close>; the constructor
  \<^verbatim>\<open>Mesh(shape, height, n_intersections, max_distance)\<close> is taken to store its
  arguments.
\<close>

record CachedMesh =
  mesh_h :: rat
  mesh_k :: rat
  mesh_max_distance :: rat

text \<open>\<^verbatim>\<open>std::numeric_limits<float>::max()\<close>.\<close>

definition scalar_max :: rat where
  "scalar_max = 340282346638528859811704183484516925440"

text \<open>The shape enters through its member \<^verbatim>\<open>k(h_0, h_1)\<close>, the parameter \<open>shape_k\<close>.\<close>

definition mesh_k_error :: "(rat \<Rightarrow> rat \<Rightarrow> rat) \<Rightarrow> rat \<Rightarrow> rat \<Rightarrow> rat \<Rightarrow> rat" where
  "mesh_k_error shape_k h_0 h_1 k = \<bar>k - k * shape_k h_0 h_1\<bar>"

text \<open>
  The scan of \<^verbatim>\<open>find_mesh\<close>: \<open>it\<close> is the position of the iterator, the state is
  the pair (\<open>best_it\<close>, \<open>best_error\<close>).
\<close>

fun find_best ::
  "(rat \<Rightarrow> rat \<Rightarrow> rat) \<Rightarrow> rat \<Rightarrow> rat \<Rightarrow> rat \<Rightarrow> CachedMesh list \<Rightarrow> nat \<Rightarrow> nat \<times> rat \<Rightarrow> nat \<times> rat" where
  "find_best shape_k h k d [] it best = best"
| "find_best shape_k h k d (m # ms) it (best_it, best_error) =
     (let error = mesh_k_error shape_k (mesh_h m) h k
      in if d = mesh_max_distance m \<and> error < best_error
         then find_best shape_k h k d ms (it + 1) (it, error)
         else find_best shape_k h k d ms (it + 1) (best_it, best_error))"

text \<open>
  \<^verbatim>\<open>find_mesh\<close>: returns the reordered vector and the handle (\<open>None\<close> for
  \<^verbatim>\<open>nullptr\<close>). \<^verbatim>\<open>std::iter_swap\<close> exchanges the elements at the two positions;
  the handle returned is \<^verbatim>\<open>*best_it\<close>, read after the exchange.
\<close>

definition find_mesh ::
  "CachedMesh list \<Rightarrow> (rat \<Rightarrow> rat \<Rightarrow> rat) \<Rightarrow> rat \<Rightarrow> rat \<Rightarrow> rat \<Rightarrow> rat \<Rightarrow> CachedMesh list \<times> CachedMesh option" where
  "find_mesh meshes shape_k h k t d =
     (if meshes = [] then (meshes, None)
      else
        case find_best shape_k h k d meshes 0 (0, scalar_max) of
          (best_it, best_error) \<Rightarrow>
            let swapped = meshes[0 := meshes ! best_it, best_it := meshes ! 0]
            in (swapped, if best_error \<le> t then Some (swapped ! best_it) else None))"

text \<open>
  The eviction loop \<^verbatim>\<open>while (int32_t(meshes.size()) > cached_meshes) meshes.pop_back()\<close>;
  popping an empty vector is undefined.
\<close>

function evict :: "CachedMesh list \<Rightarrow> int \<Rightarrow> error + CachedMesh list" where
  "evict meshes cached_meshes =
     (if int (length meshes) > cached_meshes
      then (if meshes = [] then Inl PopEmpty else evict (butlast meshes) cached_meshes)
      else Inr meshes)"
  by pat_completeness auto
termination
  by (relation "measure (\<lambda>(meshes, cached_meshes). length meshes)") auto

declare evict.simps [simp del]

text \<open>
  \<^verbatim>\<open>get_mesh\<close> run by one thread: the static vector \<open>meshes\<close> is passed in and
  returned with the handle.
\<close>

definition get_mesh ::
  "(rat \<Rightarrow> rat \<Rightarrow> rat) \<Rightarrow> CachedMesh list \<Rightarrow> rat \<Rightarrow> rat \<Rightarrow> rat \<Rightarrow> int \<Rightarrow> rat \<Rightarrow> error + CachedMesh list \<times> CachedMesh" where
  "get_mesh shape_k meshes height n_intersections intersection_tolerance cached_meshes max_distance =
     (case find_mesh meshes shape_k height n_intersections intersection_tolerance max_distance of
        (meshes1, Some mesh) \<Rightarrow> Inr (meshes1, mesh)
      | (meshes1, None) \<Rightarrow>
          (let new_mesh = \<lparr>mesh_h = height, mesh_k = n_intersections, mesh_max_distance = max_distance\<rparr>
           in case find_mesh meshes1 shape_k height n_intersections intersection_tolerance max_distance of
                (meshes2, Some mesh) \<Rightarrow> Inr (meshes2, mesh)
              | (meshes2, None) \<Rightarrow>
                  (case evict meshes2 cached_meshes of
                     Inl e \<Rightarrow> Inl e
                   | Inr meshes3 \<Rightarrow> Inr (meshes3 @ [new_mesh], new_mesh))))"

section \<open>The VisualMesh op kernel\<close>

text \<open>
  A tensor is its shape and its elements by flat row-major index. The typed
  accessors of tensorflow and the projection engine are not part of the sources
  at hand; they enter as the parameters \<open>op_env\<close>:
  \<^item> \<open>read_int32\<close>: \<^verbatim>\<open>scalar<tensorflow::int32>()(0)\<close> applied to a tensor of the
    floating type \<^verbatim>\<open>T\<close>;
  \<^item> \<open>sphere_k\<close>, \<open>circle_k\<close>: the member \<^verbatim>\<open>k(h_0, h_1)\<close> of a sphere or circle of
    the given radius;
  \<^item> \<open>project\<close>: \<^verbatim>\<open>engine.project(*mesh, mesh->lookup(Hoc, lens), Hoc, lens)\<close>.
  \<^verbatim>\<open>get_mesh\<close> keeps one static vector per shape type, so the state of the kernel
  is a pair of caches.
\<close>

record 'a tensor =
  dims :: "nat list"
  elems :: "nat \<Rightarrow> 'a"

definition IsScalar :: "'a tensor \<Rightarrow> bool" where
  "IsScalar t \<longleftrightarrow> dims t = []"

definition IsVector :: "'a tensor \<Rightarrow> bool" where
  "IsVector t \<longleftrightarrow> length (dims t) = 1"

definition IsSquareMatrix :: "'a tensor \<Rightarrow> bool" where
  "IsSquareMatrix t \<longleftrightarrow> length (dims t) = 2 \<and> dims t ! 0 = dims t ! 1"

record op_inputs =
  in_image_dimensions :: "int tensor"
  in_lens_type :: "string tensor"
  in_lens_focal_length :: "rat tensor"
  in_lens_fov :: "rat tensor"
  in_lens_centre :: "rat tensor"
  in_cam_to_observation_plane :: "rat tensor"
  in_height :: "rat tensor"
  in_n_intersections :: "rat tensor"
  in_cached_meshes :: "int tensor"
  in_intersection_tolerance :: "rat tensor"
  in_max_distance :: "rat tensor"
  in_geometry :: "string tensor"
  in_radius :: "rat tensor"

datatype projection = EQUISOLID | EQUIDISTANT | RECTILINEAR

record Lens =
  lens_dimensions :: "int \<times> int"
  lens_focal_length :: rat
  lens_fov :: rat
  lens_centre :: "rat \<times> rat"
  lens_projection :: projection

record ProjectedMesh =
  pixel_coordinates :: "(rat \<times> rat) list"
  neighbourhood :: "int list list"

record op_env =
  read_int32 :: "rat tensor \<Rightarrow> error + int"
  sphere_k :: "rat \<Rightarrow> rat \<Rightarrow> rat \<Rightarrow> rat"
  circle_k :: "rat \<Rightarrow> rat \<Rightarrow> rat \<Rightarrow> rat"
  project :: "CachedMesh \<Rightarrow> rat list list \<Rightarrow> Lens \<Rightarrow> error + ProjectedMesh"

record op_state =
  sphere_meshes :: "CachedMesh list"
  circle_meshes :: "CachedMesh list"

text \<open>
  The two output tensors, each as its allocated shape and the element writes of
  the kernel in program order (row, column, value).
\<close>

record op_outputs =
  pixels_dims :: "nat list"
  pixels_writes :: "((nat \<times> nat) \<times> rat) list"
  neighbours_dims :: "nat list"
  neighbours_writes :: "((nat \<times> nat) \<times> int) list"

text \<open>The shape checks at the head of \<^verbatim>\<open>Compute\<close>: the first failing check, if any.\<close>

definition check_shapes :: "op_inputs \<Rightarrow> error option" where
  "check_shapes inp =
     (if \<not> (IsVector (in_image_dimensions inp) \<and> dims (in_image_dimensions inp) ! 0 = 2)
        then Some (InvalidArgument ''The image dimensions must be a 2d vector of [y_size, x_size]'')
      else if \<not> IsScalar (in_lens_focal_length inp)
        then Some (InvalidArgument ''The focal length must be a scalar'')
      else if \<not> IsScalar (in_lens_fov inp)
        then Some (InvalidArgument ''The field of view must be a scalar'')
      else if \<not> (IsVector (in_lens_centre inp) \<and> dims (in_lens_centre inp) ! 0 = 2)
        then Some (InvalidArgument ''The lens centre must be a 2d vector of [y_size, x_size]'')
      else if \<not> (IsSquareMatrix (in_cam_to_observation_plane inp)
                 \<and> dims (in_cam_to_observation_plane inp) ! 0 = 3)
        then Some (InvalidArgument ''Roc must be a 3x3 matrix'')
      else if \<not> IsScalar (in_height inp)
        then Some (InvalidArgument ''The height must be a scalar'')
      else if \<not> IsScalar (in_n_intersections inp)
        then Some (InvalidArgument ''The number of intersections must be a scalar'')
      else if \<not> IsScalar (in_cached_meshes inp)
        then Some (InvalidArgument ''The number cached meshes must be a scalar'')
      else if \<not> IsScalar (in_intersection_tolerance inp)
        then Some (InvalidArgument ''The intersection tolerance must be a scalar'')
      else if \<not> IsScalar (in_max_distance inp)
        then Some (InvalidArgument ''The maximum distance must be a scalar'')
      else if \<not> IsScalar (in_geometry inp)
        then Some (InvalidArgument ''Geometry must be a single string value'')
      else if \<not> IsScalar (in_radius inp)
        then Some (InvalidArgument ''The radius must be a scalar'')
      else None)"

text \<open>
  Filling the output tensors from the projected mesh. The second dimension of
  the neighbour matrix is \<^verbatim>\<open>neighbourhood.front().size()\<close>, undefined when no point
  is on screen.
\<close>

definition fill_outputs :: "ProjectedMesh \<Rightarrow> error + op_outputs" where
  "fill_outputs projected =
     (let px = pixel_coordinates projected;
          nb = neighbourhood projected
      in if nb = [] then Inl OutOfBounds
         else Inr
           \<lparr>pixels_dims = [length px, 2],
            pixels_writes =
              concat (map (\<lambda>i. [((i, 0), snd (px ! i)), ((i, 1), fst (px ! i))]) [0..<length px]),
            neighbours_dims = [length nb, length (hd nb)],
            neighbours_writes =
              concat (map (\<lambda>i. ((i, 0), int i)
                               # map (\<lambda>j. ((i, j + 1), (nb ! i) ! j)) [0..<length (nb ! i)])
                          [0..<length nb])\<rparr>)"

text \<open>
  \<^verbatim>\<open>VisualMeshOp::Compute\<close>. The capacity \<open>cached_meshes\<close> handed to \<^verbatim>\<open>get_mesh\<close> is
  read from the input \<^verbatim>\<open>Args::N_INTERSECTIONS\<close>, as the source does.
\<close>

definition Compute :: "op_env \<Rightarrow> op_state \<Rightarrow> op_inputs \<Rightarrow> error + op_state \<times> op_outputs" where
  "Compute env st inp =
     (case check_shapes inp of
        Some e \<Rightarrow> Inl e
      | None \<Rightarrow>
          (let dimensions = (elems (in_image_dimensions inp) 1, elems (in_image_dimensions inp) 0);
               projection_name = elems (in_lens_type inp) 0;
               focal_length = elems (in_lens_focal_length inp) 0;
               fov = elems (in_lens_fov inp) 0;
               lens_centre_in = elems (in_lens_centre inp);
               tRoc = (\<lambda>i j. elems (in_cam_to_observation_plane inp) (i * 3 + j));
               height = elems (in_height inp) 0;
               max_distance = elems (in_max_distance inp) 0;
               n_intersections = elems (in_n_intersections inp) 0;
               intersection_tolerance = elems (in_intersection_tolerance inp) 0;
               geometry = elems (in_geometry inp) 0;
               radius = elems (in_radius inp) 0
           in case read_int32 env (in_n_intersections inp) of
                Inl e \<Rightarrow> Inl e
              | Inr cached_meshes \<Rightarrow>
                  if \<not> (projection_name = ''EQUISOLID'' \<or> projection_name = ''EQUIDISTANT''
                         \<or> projection_name = ''RECTILINEAR'')
                    then Inl (InvalidArgument
                           ''Projection must be one of EQUISOLID, EQUIDISTANT or RECTILINEAR'')
                  else if \<not> (geometry = ''SPHERE'' \<or> geometry = ''CIRCLE'')
                    then Inl (InvalidArgument ''Geometry must be one of SPHERE or CIRCLE'')
                  else
                    (let Hoc = [[tRoc 0 0, tRoc 0 1, tRoc 0 2, 0],
                                [tRoc 1 0, tRoc 1 1, tRoc 1 2, 0],
                                [tRoc 2 0, tRoc 2 1, tRoc 2 2, height],
                                [0, 0, 0, 1]];
                         lens = \<lparr>lens_dimensions = dimensions,
                                 lens_focal_length = focal_length,
                                 lens_fov = fov,
                                 lens_centre = (lens_centre_in 1, lens_centre_in 0),
                                 lens_projection =
                                   (if projection_name = ''EQUISOLID'' then EQUISOLID
                                    else if projection_name = ''EQUIDISTANT'' then EQUIDISTANT
                                    else RECTILINEAR)\<rparr>
                     in if geometry = ''SPHERE'' then
                          (case get_mesh (sphere_k env radius) (sphere_meshes st) height
                                  n_intersections intersection_tolerance cached_meshes max_distance of
                             Inl e \<Rightarrow> Inl e
                           | Inr (meshes', mesh) \<Rightarrow>
                               (case project env mesh Hoc lens of
                                  Inl e \<Rightarrow> Inl e
                                | Inr projected \<Rightarrow>
                                    (case fill_outputs projected of
                                       Inl e \<Rightarrow> Inl e
                                     | Inr out \<Rightarrow> Inr (st\<lparr>sphere_meshes := meshes'\<rparr>, out))))
                        else
                          (case get_mesh (circle_k env radius) (circle_meshes st) height
                                  n_intersections intersection_tolerance cached_meshes max_distance of
                             Inl e \<Rightarrow> Inl e
                           | Inr (meshes', mesh) \<Rightarrow>
                               (case project env mesh Hoc lens of
                                  Inl e \<Rightarrow> Inl e
                                | Inr projected \<Rightarrow>
                                    (case fill_outputs projected of
                                       Inl e \<Rightarrow> Inl e
                                     | Inr out \<Rightarrow> Inr (st\<lparr>circle_meshes := meshes'\<rparr>, out)))))))"

section \<open>Proofs: mesh builder\<close>

subsection \<open>Loops and frames\<close>

lemma for_loop_invariant:
  assumes "for_loop a b body s = Inr t" and "I a s" and "a \<le> b"
    and step: "\<And>k u v. a \<le> k \<Longrightarrow> k < b \<Longrightarrow> I k u \<Longrightarrow> body k u = Inr v \<Longrightarrow> I (Suc k) v"
  shows "I b t"
  using assms
proof (induction a b body s rule: for_loop.induct)
  case (1 i n body s)
  show ?case
  proof (cases "i < n")
    case True
    then obtain s' where b: "body i s = Inr s'" and r: "for_loop (Suc i) n body s' = Inr t"
      using "1.prems"(1) by (subst (asm) for_loop.simps) (auto split: sum.splits)
    have "I (Suc i) s'" using "1.prems"(4)[OF _ True "1.prems"(2) b] by simp
    moreover have "\<And>k u v. Suc i \<le> k \<Longrightarrow> k < n \<Longrightarrow> I k u \<Longrightarrow> body k u = Inr v \<Longrightarrow> I (Suc k) v"
      using "1.prems"(4) by simp
    ultimately show ?thesis
      using "1.IH"[OF True b r] True by simp
  next
    case False
    then have "t = s" "i = n" using "1.prems" by (subst (asm) for_loop.simps, simp)+
    then show ?thesis using "1.prems"(2) by simp
  qed
qed

lemma for_loop_empty: "b \<le> a \<Longrightarrow> for_loop a b body s = Inr s"
  by (subst for_loop.simps) simp

lemma touch_refl: "touch K s s"
  by (simp add: touch_def)

lemma touch_trans: "touch K s t \<Longrightarrow> touch K' t u \<Longrightarrow> touch (K \<union> K') s u"
  by (simp add: touch_def)

lemma touch_mono: "touch K s t \<Longrightarrow> K \<subseteq> K' \<Longrightarrow> touch K' s t"
  by (auto simp add: touch_def)

lemma touch_six: "touch K s t \<Longrightarrow> six_slots s \<Longrightarrow> six_slots t"
  by (simp add: touch_def six_slots_def)

lemma touch_length: "touch K s t \<Longrightarrow> length t = length s"
  by (simp add: touch_def)

lemma touch_lr_symmetric:
  assumes "touch K s t" "lr_symmetric s"
  shows "lr_symmetric t"
  using assms unfolding touch_def lr_symmetric_def Let_def
  by (metis nat_less_iff)

subsection \<open>One link, one node\<close>

lemma link_result:
  assumes l: "link s i pos st sz off = Inr t" and off: "off = 0 \<or> off = 4"
    and six: "length (neighbours (s ! i)) = 6"
  shows "touch {i} s t" and "i < length s" and "link_rule t i pos st sz off"
    and "\<And>q. q \<noteq> off \<Longrightarrow> q \<noteq> off + 1 \<Longrightarrow> neighbours (t ! i) ! q = neighbours (s ! i) ! q"
proof -
  show i: "i < length s" using l by (auto simp: link_def split: if_splits)
  define left where "left = (pos > 1 / 2)"
  define o1 where "o1 = st + \<lfloor>pos * of_int sz + (if left then 0 else 1)\<rfloor>"
  define o2 where "o2 = o1 + neighbours (s ! nat o1) ! (2 + (if left then 1 else 0))"
  define nb where "nb = (neighbours (s ! i))
                        [off := (if left then o1 else o2) - int i,
                         off + 1 := (if left then o2 else o1) - int i]"
  have o1: "0 \<le> o1" "o1 < int (length s)" and t: "t = s[i := (s ! i)\<lparr>neighbours := nb\<rparr>]"
    using l i unfolding link_def Let_def left_def o1_def o2_def nb_def
    by (auto split: if_splits)
  have nb23: "nb ! 2 = neighbours (s ! i) ! 2" "nb ! 3 = neighbours (s ! i) ! 3"
    using off by (auto simp: nb_def)
  have nblen: "length nb = 6" by (simp add: nb_def six)
  show "touch {i} s t"
    unfolding touch_def t using i nb23 nblen six
    by (auto simp: nth_list_update)
  have lr: "neighbours (t ! nat o1) ! (if left then 3 else 2) = neighbours (s ! nat o1) ! (if left then 3 else 2)"
    using o1 i nb23 by (cases "nat o1 = i") (auto simp: t nth_list_update)
  have sl: "nb ! off = (if left then o1 else o2) - int i" "nb ! (off + 1) = (if left then o2 else o1) - int i"
    using off six by (auto simp: nb_def)
  have ti: "neighbours (t ! i) = nb" using i by (simp add: t)
  have o2': "o2 = o1 + neighbours (t ! nat o1) ! (if left then 3 else 2)"
    using lr by (cases left) (simp_all add: o2_def eval_nat_numeral)
  show "link_rule t i pos st sz off"
    unfolding link_rule_def Let_def
    using o1 sl o2' ti unfolding left_def[symmetric] o1_def[symmetric]
    by (simp add: t)
  show "\<And>q. q \<noteq> off \<Longrightarrow> q \<noteq> off + 1 \<Longrightarrow> neighbours (t ! i) ! q = neighbours (s ! i) ! q"
    by (simp add: ti nb_def)
qed

lemma link_rule_cong:
  assumes "link_rule s j pos st sz off" and "touch K s t"
    and "neighbours (t ! j) ! off = neighbours (s ! j) ! off"
    and "neighbours (t ! j) ! (off + 1) = neighbours (s ! j) ! (off + 1)"
  shows "link_rule t j pos st sz off"
proof -
  define left where "left = (pos > 1 / 2)"
  define o1 where "o1 = st + \<lfloor>pos * of_int sz + (if left then 0 else 1)\<rfloor>"
  have o1: "0 \<le> o1" "o1 < int (length s)"
    using assms(1) unfolding link_rule_def Let_def left_def o1_def by auto
  then have "nat o1 < length s" by simp
  then have "neighbours (t ! nat o1) ! 2 = neighbours (s ! nat o1) ! 2"
    "neighbours (t ! nat o1) ! 3 = neighbours (s ! nat o1) ! 3" "length t = length s"
    using assms(2) by (auto simp: touch_def)
  then show ?thesis
    using assms(1,3,4) unfolding link_rule_def Let_def left_def[symmetric] o1_def[symmetric]
    by auto
qed

lemma link_rule_touch:
  assumes "link_rule s j pos st sz off" and "touch K s t" and "j \<notin> K" and "j < length s"
  shows "link_rule t j pos st sz off"
proof -
  have "t ! j = s ! j" using assms(2,3,4) by (simp add: touch_def)
  then show ?thesis using link_rule_cong[OF assms(1,2)] by simp
qed


lemma middle_node_result:
  assumes m: "middle_node prev cur nxt i s = Inr t" and six: "six_slots s"
  shows "touch {i} s t \<and> i < length t \<and>
         link_rule t i (row_pos cur i) (int (row_begin prev)) (row_size prev) 0 \<and>
         link_rule t i (row_pos cur i) (int (row_begin nxt)) (row_size nxt) 4"
proof -
  obtain s1 where l1: "link s i (row_pos cur i) (int (row_begin prev)) (row_size prev) 0 = Inr s1"
    and l2: "link s1 i (row_pos cur i) (int (row_begin nxt)) (row_size nxt) 4 = Inr t"
    using m unfolding middle_node_def Let_def row_pos_def by (auto split: sum.splits)
  have i: "i < length s" using l1 by (auto simp: link_def split: if_splits)
  then have six_i: "length (neighbours (s ! i)) = 6" using six by (simp add: six_slots_def)
  note r1 = link_result[OF l1 _ six_i]
  have t1: "touch {i} s s1" and lr1: "link_rule s1 i (row_pos cur i) (int (row_begin prev)) (row_size prev) 0"
    using r1 by simp_all
  have six_1: "length (neighbours (s1 ! i)) = 6" using t1 i six_i by (simp add: touch_def)
  note r2 = link_result[OF l2 _ six_1]
  have t2: "touch {i} s1 t" and lr2: "link_rule t i (row_pos cur i) (int (row_begin nxt)) (row_size nxt) 4"
    and keep: "neighbours (t ! i) ! 0 = neighbours (s1 ! i) ! 0" "neighbours (t ! i) ! (0 + 1) = neighbours (s1 ! i) ! (0 + 1)"
    using r2 by simp_all
  have "touch {i} s t" using touch_trans[OF t1 t2] by simp
  moreover have "link_rule t i (row_pos cur i) (int (row_begin prev)) (row_size prev) 0"
    by (rule link_rule_cong[OF lr1 t2 keep])
  moreover have "i < length t" using i t1 t2 by (simp add: touch_def)
  ultimately show ?thesis using lr2 by simp
qed

lemma pole_index:
  assumes "b \<le> i" "i < e"
  shows "int b + (int (i - b) + (int e - int b) div 2) mod (int e - int b) =
         int (b + ((i - b) + (e - b) div 2) mod (e - b))"
    and "int b + (int (i - b) + (int e - int b) div 2 + 1) mod (int e - int b) =
         int (b + ((i - b) + (e - b) div 2 + 1) mod (e - b))"
proof -
  have e: "int e - int b = int (e - b)" using assms by simp
  show "int b + (int (i - b) + (int e - int b) div 2) mod (int e - int b) =
         int (b + ((i - b) + (e - b) div 2) mod (e - b))"
    unfolding e by (simp add: zmod_int zdiv_int)
  show "int b + (int (i - b) + (int e - int b) div 2 + 1) mod (int e - int b) =
         int (b + ((i - b) + (e - b) div 2 + 1) mod (e - b))"
    unfolding e by (simp add: zmod_int zdiv_int add.commute add.left_commute)
qed

lemma front_node_result:
  assumes m: "front_node rws front i s = Inr t" and six: "six_slots s"
    and rng: "row_begin front \<le> i" "i < row_end front"
  shows "touch {i} s t \<and> i < length t \<and> 1 < length rws \<and>
         pole_links t i front 0 \<and>
         link_rule t i (row_pos front i) (int (row_begin (rws ! 1))) (row_size (rws ! 1)) 4"
proof -
  have i: "i < length s" using m by (auto simp: front_node_def split: if_splits)
  then have six_i: "length (neighbours (s ! i)) = 6" using six by (simp add: six_slots_def)
  define nb where "nb = (neighbours (s ! i))
       [0 := int (row_begin front + ((i - row_begin front) + (row_end front - row_begin front) div 2) mod (row_end front - row_begin front)) - int i,
        1 := int (row_begin front + ((i - row_begin front) + (row_end front - row_begin front) div 2 + 1) mod (row_end front - row_begin front)) - int i]"
  define s1 where "s1 = s[i := (s ! i)\<lparr>neighbours := nb\<rparr>]"
  have len: "1 < length rws" and l2: "link s1 i (row_pos front i) (int (row_begin (rws ! 1))) (row_size (rws ! 1)) 4 = Inr t"
    using m i unfolding front_node_def Let_def row_pos_def s1_def nb_def vec_at_def row_size_def
      pole_index[OF rng, symmetric]
    by (auto split: if_splits sum.splits)
  have t1: "touch {i} s s1"
    unfolding touch_def s1_def using i six_i by (auto simp: nth_list_update nb_def)
  have six_1: "length (neighbours (s1 ! i)) = 6" using i six_i by (simp add: s1_def nb_def)
  have p1: "pole_links s1 i front 0"
    using i six_i by (simp add: pole_links_def s1_def nb_def Let_def)
  note r2 = link_result[OF l2 _ six_1]
  have t2: "touch {i} s1 t" and lr2: "link_rule t i (row_pos front i) (int (row_begin (rws ! 1))) (row_size (rws ! 1)) 4"
    and keep: "neighbours (t ! i) ! 0 = neighbours (s1 ! i) ! 0" "neighbours (t ! i) ! 1 = neighbours (s1 ! i) ! 1"
    using r2 by simp_all
  have "touch {i} s t" using touch_trans[OF t1 t2] by simp
  moreover have "pole_links t i front 0" using p1 keep by (simp add: pole_links_def)
  moreover have "i < length t" using i t1 t2 by (simp add: touch_def)
  ultimately show ?thesis using lr2 len by simp
qed

lemma back_node_result:
  assumes m: "back_node rws back i s = Inr t" and six: "six_slots s"
    and rng: "row_begin back \<le> i" "i < row_end back"
  shows "touch {i} s t \<and> i < length t \<and> size_t_sub (length rws) 2 < length rws \<and>
         pole_links t i back 4 \<and>
         link_rule t i (row_pos back i) (int (row_begin (rws ! size_t_sub (length rws) 2)))
           (row_size (rws ! size_t_sub (length rws) 2)) 0"
proof -
  have i: "i < length s" using m by (auto simp: back_node_def split: if_splits)
  then have six_i: "length (neighbours (s ! i)) = 6" using six by (simp add: six_slots_def)
  define nb where "nb = (neighbours (s ! i))
       [4 := int (row_begin back + ((i - row_begin back) + (row_end back - row_begin back) div 2) mod (row_end back - row_begin back)) - int i,
        5 := int (row_begin back + ((i - row_begin back) + (row_end back - row_begin back) div 2 + 1) mod (row_end back - row_begin back)) - int i]"
  define s1 where "s1 = s[i := (s ! i)\<lparr>neighbours := nb\<rparr>]"
  define q where "q = size_t_sub (length rws) 2"
  have len: "q < length rws" and l2: "link s1 i (row_pos back i) (int (row_begin (rws ! q))) (row_size (rws ! q)) 0 = Inr t"
    using m i unfolding back_node_def Let_def row_pos_def s1_def nb_def vec_at_def row_size_def
      pole_index[OF rng, symmetric] q_def
    by (auto split: if_splits sum.splits)
  have t1: "touch {i} s s1"
    unfolding touch_def s1_def using i six_i by (auto simp: nth_list_update nb_def)
  have six_1: "length (neighbours (s1 ! i)) = 6" using i six_i by (simp add: s1_def nb_def)
  have p1: "pole_links s1 i back 4"
    using i six_i by (simp add: pole_links_def s1_def nb_def Let_def)
  note r2 = link_result[OF l2 _ six_1]
  have t2: "touch {i} s1 t" and lr2: "link_rule t i (row_pos back i) (int (row_begin (rws ! q))) (row_size (rws ! q)) 0"
    and keep: "neighbours (t ! i) ! 4 = neighbours (s1 ! i) ! 4" "neighbours (t ! i) ! 5 = neighbours (s1 ! i) ! 5"
    using r2 by simp_all
  have "touch {i} s t" using touch_trans[OF t1 t2] by simp
  moreover have "pole_links t i back 4" using p1 keep by (simp add: pole_links_def)
  moreover have "i < length t" using i t1 t2 by (simp add: touch_def)
  ultimately show ?thesis using lr2 len unfolding q_def by simp
qed

subsection \<open>Loops over nodes and rows\<close>

lemma range_loop:
  assumes loop: "for_loop a b body s = Inr t"
    and body: "\<And>k u v. a \<le> k \<Longrightarrow> k < b \<Longrightarrow> touch (\<Union>j\<in>{a..<k}. D j) s u \<Longrightarrow> body k u = Inr v
                 \<Longrightarrow> touch (D k) u v \<and> Q k v"
    and stable: "\<And>k j u v. a \<le> k \<Longrightarrow> k < j \<Longrightarrow> j < b \<Longrightarrow> Q k u \<Longrightarrow> touch (D j) u v \<Longrightarrow> Q k v"
  shows "touch (\<Union>j\<in>{a..<b}. D j) s t \<and> (\<forall>k. a \<le> k \<and> k < b \<longrightarrow> Q k t)"
proof (cases "a \<le> b")
  case True
  define I where "I k u \<longleftrightarrow> touch (\<Union>j\<in>{a..<k}. D j) s u \<and> (\<forall>j. a \<le> j \<and> j < k \<longrightarrow> Q j u)" for k u
  have "I b t"
  proof (rule for_loop_invariant[OF loop _ True])
    show "I a s" by (auto simp add: I_def touch_refl)
  next
    fix k u v
    assume k: "a \<le> k" "k < b" and Ik: "I k u" and b: "body k u = Inr v"
    have tu: "touch (\<Union>j\<in>{a..<k}. D j) s u" and qu: "\<forall>j. a \<le> j \<and> j < k \<longrightarrow> Q j u"
      using Ik by (simp_all add: I_def)
    have tk: "touch (D k) u v" and qk: "Q k v" using body[OF k tu b] by simp_all
    have "{a..<Suc k} = {a..<k} \<union> {k}" using k by auto
    then have "(\<Union>j\<in>{a..<Suc k}. D j) = (\<Union>j\<in>{a..<k}. D j) \<union> D k" by auto
    then have "touch (\<Union>j\<in>{a..<Suc k}. D j) s v" using touch_trans[OF tu tk] by simp
    moreover have "Q j v" if "a \<le> j" "j < k" for j
      using stable[OF that k(2) _ tk] qu that by simp
    ultimately show "I (Suc k) v" using qk by (auto simp: I_def less_Suc_eq)
  qed
  then show ?thesis by (simp add: I_def)
next
  case False
  then have "t = s" using loop for_loop_empty[of b a body s] by simp
  then show ?thesis using False by (auto simp add: touch_refl)
qed

lemma node_loop:
  assumes loop: "for_loop a b body s = Inr t"
    and body: "\<And>k u v. a \<le> k \<Longrightarrow> k < b \<Longrightarrow> touch {a..<k} s u \<Longrightarrow> body k u = Inr v
                 \<Longrightarrow> touch {k} u v \<and> Q k v"
    and stable: "\<And>k j u v. a \<le> k \<Longrightarrow> k < j \<Longrightarrow> j < b \<Longrightarrow> Q k u \<Longrightarrow> touch {j} u v \<Longrightarrow> Q k v"
  shows "touch {a..<b} s t \<and> (\<forall>k. a \<le> k \<and> k < b \<longrightarrow> Q k t)"
proof -
  have u: "(\<Union>j\<in>{a..<k}. {j}) = {a..<k}" for k by auto
  have "touch (\<Union>j\<in>{a..<b}. {j}) s t \<and> (\<forall>k. a \<le> k \<and> k < b \<longrightarrow> Q k t)"
  proof (rule range_loop[where D = "\<lambda>j. {j}" and Q = Q, OF loop])
    fix k u v
    assume "a \<le> k" "k < b" "touch (\<Union>j\<in>{a..<k}. {j}) s u" "body k u = Inr v"
    then show "touch {k} u v \<and> Q k v" using body[of k u v] by (simp only: u)
  next
    fix k j u v
    assume "a \<le> k" "k < j" "j < b" "Q k u" "touch {j} u v"
    then show "Q k v" by (rule stable)
  qed
  then show ?thesis unfolding u .
qed



lemma stitch_empty: "stitch lut [] = Inl OutOfBounds"
  by (simp add: stitch_def size_t_sub_def for_loop.simps middle_row_def vec_at_def)

lemma middle_row_result:
  assumes m: "middle_row rws r s = Inr t" and six: "six_slots s"
    and r: "1 \<le> r"
  shows "r + 1 < length rws \<and>
         touch {row_begin (rws ! r)..<row_end (rws ! r)} s t \<and>
         (\<forall>i. row_begin (rws ! r) \<le> i \<and> i < row_end (rws ! r) \<longrightarrow>
            i < length t \<and>
            link_rule t i (row_pos (rws ! r) i) (int (row_begin (rws ! (r - 1)))) (row_size (rws ! (r - 1))) 0 \<and>
            link_rule t i (row_pos (rws ! r) i) (int (row_begin (rws ! (r + 1)))) (row_size (rws ! (r + 1))) 4)"
proof -
  define prev where "prev = rws ! (r - 1)"
  define cur where "cur = rws ! r"
  define nxt where "nxt = rws ! (r + 1)"
  have len: "r + 1 < length rws"
    and loop: "for_loop (row_begin cur) (row_end cur) (middle_node prev cur nxt) s = Inr t"
    using m unfolding middle_row_def vec_at_def prev_def cur_def nxt_def
    by (auto split: if_splits sum.splits)
  define Q where "Q i u \<longleftrightarrow> i < length u \<and>
            link_rule u i (row_pos cur i) (int (row_begin prev)) (row_size prev) 0 \<and>
            link_rule u i (row_pos cur i) (int (row_begin nxt)) (row_size nxt) 4" for i u
  have "touch {row_begin cur..<row_end cur} s t \<and> (\<forall>k. row_begin cur \<le> k \<and> k < row_end cur \<longrightarrow> Q k t)"
  proof (rule node_loop[OF loop])
    fix k u v
    assume "touch {row_begin cur..<k} s u" and b: "middle_node prev cur nxt k u = Inr v"
    then have "six_slots u" using six touch_six by blast
    then show "touch {k} u v \<and> Q k v" using middle_node_result[OF b] by (simp add: Q_def)
  next
    fix k j u v
    assume kj: "k < j" and q: "Q k u" and t: "touch {j} u v"
    have "k \<notin> {j}" using kj by simp
    then show "Q k v"
      using q t link_rule_touch[OF _ t, of k] touch_length[OF t] unfolding Q_def by simp
  qed
  then show ?thesis using len unfolding Q_def prev_def cur_def nxt_def by simp
qed


subsection \<open>The generated table\<close>

lemma six_slots_append_row:
  "six_slots lut \<Longrightarrow> six_slots (lut @ map (make_node steps) [0..<steps])"
  by (auto simp: six_slots_def nth_append make_node_def Let_def)

lemma rows_ok_append_row:
  assumes "rows_ok lut rws"
  shows "rows_ok (lut @ new) (rws @ [\<lparr>phi = ph, row_begin = length lut, row_end = length lut + length new\<rparr>])"
  using assms unfolding rows_ok_def
  by (auto simp: nth_append less_Suc_eq)

lemma make_node_L:
  "neighbours (make_node steps p) ! 2 = (if p = 0 then int steps - 1 else - 1)"
  by (simp add: make_node_def Let_def)

lemma make_node_R:
  "neighbours (make_node steps p) ! 3 = (if int p = int steps - 1 then - int p else 1)"
  by (simp add: make_node_def Let_def)

lemma lr_symmetric_append_row:
  assumes "lr_symmetric lut"
  shows "lr_symmetric (lut @ map (make_node steps) [0..<steps])"
  unfolding lr_symmetric_def Let_def
proof (intro allI impI)
  fix i
  assume i: "i < length (lut @ map (make_node steps) [0..<steps])"
  let ?t = "lut @ map (make_node steps) [0..<steps]"
  show "(0 \<le> int i + neighbours (?t ! i) ! 2 \<and> int i + neighbours (?t ! i) ! 2 < int (length ?t) \<and>
         int i + neighbours (?t ! i) ! 2 + neighbours (?t ! nat (int i + neighbours (?t ! i) ! 2)) ! 3 = int i) \<and>
        (0 \<le> int i + neighbours (?t ! i) ! 3 \<and> int i + neighbours (?t ! i) ! 3 < int (length ?t) \<and>
         int i + neighbours (?t ! i) ! 3 + neighbours (?t ! nat (int i + neighbours (?t ! i) ! 3)) ! 2 = int i)"
  proof (cases "i < length lut")
    case True
    then have ti: "?t ! i = lut ! i" by (simp add: nth_append)
    have a: "0 \<le> int i + neighbours (lut ! i) ! 2" "int i + neighbours (lut ! i) ! 2 < int (length lut)"
      "int i + neighbours (lut ! i) ! 2 + neighbours (lut ! nat (int i + neighbours (lut ! i) ! 2)) ! 3 = int i"
      "0 \<le> int i + neighbours (lut ! i) ! 3" "int i + neighbours (lut ! i) ! 3 < int (length lut)"
      "int i + neighbours (lut ! i) ! 3 + neighbours (lut ! nat (int i + neighbours (lut ! i) ! 3)) ! 2 = int i"
      using assms True unfolding lr_symmetric_def Let_def by blast+
    have "?t ! nat (int i + neighbours (lut ! i) ! 2) = lut ! nat (int i + neighbours (lut ! i) ! 2)"
      "?t ! nat (int i + neighbours (lut ! i) ! 3) = lut ! nat (int i + neighbours (lut ! i) ! 3)"
      using a by (simp_all add: nth_append)
    then show ?thesis using a unfolding ti by simp
  next
    case False
    define p where "p = i - length lut"
    have p: "p < steps" and ip: "i = length lut + p" using i False by (simp_all add: p_def)
    have node: "?t ! (length lut + q) = make_node steps q" if "q < steps" for q
      using that by (simp add: nth_append)
    define p2 where "p2 = (if p = 0 then steps - 1 else p - 1)"
    define p3 where "p3 = (if int p = int steps - 1 then 0 else p + 1)"
    have p2: "p2 < steps" and p3: "p3 < steps" using p by (auto simp: p2_def p3_def)
    have j2: "int i + neighbours (?t ! i) ! 2 = int (length lut + p2)"
      using p by (auto simp: ip p2_def make_node_L)
    have j3: "int i + neighbours (?t ! i) ! 3 = int (length lut + p3)"
      using p by (auto simp: ip p3_def make_node_R)
    have n2: "neighbours (?t ! nat (int (length lut + p2))) ! 3 = int p - int p2"
      unfolding nat_int node[OF p2] make_node_R using p by (auto simp: p2_def)
    have n3: "neighbours (?t ! nat (int (length lut + p3))) ! 2 = int p - int p3"
      unfolding nat_int node[OF p3] make_node_L using p by (auto simp: p3_def)
    show ?thesis
      unfolding j2 j3 n2 n3 using p2 p3 by (simp add: ip)
  qed
qed

lemma generate_invariant:
  assumes "generate vs lut rws = (lut', rws')"
    and "six_slots lut" and "rows_ok lut rws" and "lr_symmetric lut"
  shows "six_slots lut' \<and> rows_ok lut' rws' \<and> lr_symmetric lut' \<and> length rws' = length rws + length vs"
  using assms
proof (induction vs arbitrary: lut rws)
  case Nil
  then show ?case by simp
next
  case (Cons v vs)
  obtain ph steps where v: "v = (ph, steps)" by (cases v)
  let ?new = "map (make_node steps) [0..<steps]"
  have g: "generate vs (lut @ ?new) (rws @ [\<lparr>phi = ph, row_begin = length lut, row_end = length lut + steps\<rparr>]) = (lut', rws')"
    using Cons.prems(1) by (simp add: v)
  have r: "rows_ok (lut @ ?new) (rws @ [\<lparr>phi = ph, row_begin = length lut, row_end = length lut + steps\<rparr>])"
    using rows_ok_append_row[OF Cons.prems(3), of ?new ph] by simp
  show ?case
    using Cons.IH[OF g six_slots_append_row[OF Cons.prems(2)] r lr_symmetric_append_row[OF Cons.prems(4)]]
    by simp
qed

lemma generate_initial:
  assumes "generate vs [] [] = (lut, rws)"
  shows "six_slots lut" "rows_ok lut rws" "lr_symmetric lut" "length rws = length vs"
  using generate_invariant[OF assms]
  by (simp_all add: six_slots_def rows_ok_def lr_symmetric_def)

subsection \<open>The built mesh\<close>

lemma build_mesh_parts:
  assumes "build_mesh phis = Inr m"
  obtains lut0 rws where "stitch lut0 rws = Inr m" and "six_slots lut0" and "rows_ok lut0 rws"
    and "lr_symmetric lut0" and "length rws = length phis"
proof -
  obtain lut0 rws where g: "generate (sort phis) [] [] = (lut0, rws)" by (cases "generate (sort phis) [] []")
  then have s: "stitch lut0 rws = Inr m" using assms by (simp add: build_mesh_def)
  have "length rws = length phis" using generate_initial(4)[OF g] by simp
  then show ?thesis using that[OF s generate_initial(1,2,3)[OF g]] by simp
qed

lemma stitch_touch:
  assumes st: "stitch lut0 rws = Inr m" and six: "six_slots lut0"
  shows "touch UNIV lut0 (nodes m)"
proof -
  have ne: "rws \<noteq> []" using st stitch_empty by auto
  obtain lut1 lut2 lut3 where
    l1: "for_loop 1 (size_t_sub (length rws) 1) (middle_row rws) lut0 = Inr lut1" and
    l2: "for_loop (row_begin (hd rws)) (row_end (hd rws)) (front_node rws (hd rws)) lut1 = Inr lut2" and
    l3: "for_loop (row_begin (last rws)) (row_end (last rws)) (back_node rws (last rws)) lut2 = Inr lut3" and
    m: "m = \<lparr>nodes = lut3, rows = rws\<rparr>"
    using st ne unfolding stitch_def Let_def by (auto split: sum.splits)
  have "touch (\<Union>j\<in>{1..<size_t_sub (length rws) 1}. {row_begin (rws ! j)..<row_end (rws ! j)}) lut0 lut1 \<and>
        (\<forall>k. 1 \<le> k \<and> k < size_t_sub (length rws) 1 \<longrightarrow> True)"
  proof (rule range_loop[OF l1])
    fix k u v
    assume k: "1 \<le> k" and t: "touch (\<Union>j\<in>{1..<k}. {row_begin (rws ! j)..<row_end (rws ! j)}) lut0 u"
      and b: "middle_row rws k u = Inr v"
    show "touch {row_begin (rws ! k)..<row_end (rws ! k)} u v \<and> True"
      using middle_row_result[OF b touch_six[OF t six] k] by simp
  qed simp
  then have t1: "touch UNIV lut0 lut1" using touch_mono by blast
  have six1: "six_slots lut1" using touch_six[OF t1 six] .
  have "touch {row_begin (hd rws)..<row_end (hd rws)} lut1 lut2 \<and>
        (\<forall>k. row_begin (hd rws) \<le> k \<and> k < row_end (hd rws) \<longrightarrow> True)"
  proof (rule node_loop[OF l2])
    fix k u v
    assume k: "row_begin (hd rws) \<le> k" "k < row_end (hd rws)"
      and t: "touch {row_begin (hd rws)..<k} lut1 u" and b: "front_node rws (hd rws) k u = Inr v"
    show "touch {k} u v \<and> True" using front_node_result[OF b touch_six[OF t six1] k] by simp
  qed simp
  then have t2: "touch UNIV lut1 lut2" using touch_mono by blast
  have six2: "six_slots lut2" using touch_six[OF t2 six1] .
  have "touch {row_begin (last rws)..<row_end (last rws)} lut2 lut3 \<and>
        (\<forall>k. row_begin (last rws) \<le> k \<and> k < row_end (last rws) \<longrightarrow> True)"
  proof (rule node_loop[OF l3])
    fix k u v
    assume k: "row_begin (last rws) \<le> k" "k < row_end (last rws)"
      and t: "touch {row_begin (last rws)..<k} lut2 u" and b: "back_node rws (last rws) k u = Inr v"
    show "touch {k} u v \<and> True" using back_node_result[OF b touch_six[OF t six2] k] by simp
  qed simp
  then have t3: "touch UNIV lut2 lut3" using touch_mono by blast
  have "touch (UNIV \<union> UNIV) lut0 lut2" using touch_trans[OF t1 t2] .
  then have "touch (UNIV \<union> UNIV \<union> UNIV) lut0 lut3" using touch_trans[OF _ t3] by blast
  then show ?thesis by (simp add: m)
qed

subsection \<open>Two small meshes\<close>

lemma example_mesh_3_3:
  "build_mesh [(1 / 2, 3), (1, 3)] =
     Inr \<lparr>nodes =
           [\<lparr>neighbours = [1, 2, 2, 1, 3, 4]\<rparr>,
            \<lparr>neighbours = [1, - 1, - 1, 1, 3, 4]\<rparr>,
            \<lparr>neighbours = [- 2, - 1, - 1, - 2, 3, 1]\<rparr>,
            \<lparr>neighbours = [- 3, - 2, 2, 1, 1, 2]\<rparr>,
            \<lparr>neighbours = [- 3, - 2, - 1, 1, 1, - 1]\<rparr>,
            \<lparr>neighbours = [- 3, - 5, - 1, - 2, - 2, - 1]\<rparr>],
          rows =
            [\<lparr>phi = 1 / 2, row_begin = 0, row_end = 3\<rparr>,
             \<lparr>phi = 1, row_begin = 3, row_end = 6\<rparr>]\<rparr>"
  by code_simp


section \<open>Proofs: frustum lookup\<close>

lemma ceiling_rat_numeral:
  "\<lceil>numeral a / numeral b :: rat\<rceil> = - (- numeral a div numeral b)"
proof -
  have "\<lfloor>of_int (- numeral a) / of_int (numeral b) :: rat\<rfloor> = - numeral a div numeral b"
    by (rule floor_divide_of_int_eq)
  then show ?thesis by (simp add: ceiling_def)
qed






lemma add_range_error: "add_range row r indices = Inl e \<Longrightarrow> e = NegativeToUnsigned"
  by (auto simp: add_range_def to_size_t_def Let_def split: if_splits sum.splits)

lemma ranges_loop_error: "ranges_loop row rs indices = Inl e \<Longrightarrow> e = NegativeToUnsigned"
  by (induction rs arbitrary: indices) (auto split: sum.splits dest: add_range_error)

lemma rows_loop_failing_row:
  assumes "row \<in> set rws" and "theta_limits (phi row) = Inl e"
    and "\<And>ph e'. theta_limits ph = Inl e' \<Longrightarrow> e' = e"
  shows "rows_loop theta_limits rws indices = Inl e \<or>
         rows_loop theta_limits rws indices = Inl NegativeToUnsigned"
  using assms(1)
proof (induction rws arbitrary: indices)
  case Nil
  then show ?case by simp
next
  case (Cons r rws)
  show ?case
  proof (cases "theta_limits (phi r)")
    case (Inl e')
    then show ?thesis using assms(3) by simp
  next
    case (Inr rs)
    show ?thesis
    proof (cases "ranges_loop r rs indices")
      case (Inl e')
      then show ?thesis using Inr ranges_loop_error by simp
    next
      case inr: (Inr indices')
      have "row \<in> set rws" using Cons.prems Inr assms(2) by auto
      then show ?thesis using Cons.IH Inr inr by simp
    qed
  qed
qed

lemma collect_four:
  assumes "collect_limits sol [0, 1, 2, 3] (0, []) = (c, ls)" and "ls \<noteq> []"
  shows "c \<noteq> 4"
  using assms by (auto split: edge_solution.splits)

lemma equirectangular_theta_limits_error:
  "equirectangular_theta_limits num ph = Inl e \<Longrightarrow> e = odd_intersections"
  by (auto simp: equirectangular_theta_limits_def Let_def split: prod.splits if_splits)

lemma equirectangular_theta_limits_odd:
  assumes "odd (length (snd (collect_limits (edge_solutions num ph) [0, 1, 2, 3] (0, []))))"
  shows "equirectangular_theta_limits num ph = Inl odd_intersections"
proof -
  obtain c ls where cl: "collect_limits (edge_solutions num ph) [0, 1, 2, 3] (0, []) = (c, ls)"
    by (cases "collect_limits (edge_solutions num ph) [0, 1, 2, 3] (0, [])")
  have odd: "odd (length ls)" using assms cl by simp
  then have ne: "ls \<noteq> []" by auto
  have c: "c \<noteq> 4" using collect_four[OF cl ne] .
  show ?thesis
    using odd ne c unfolding equirectangular_theta_limits_def cl
    by (simp add: odd_iff_mod_2_eq_one)
qed

lemma lower_bound_None: "lower_bound luts h = None \<longleftrightarrow> (\<forall>k\<in>fst ` set luts. k < h)"
  by (auto simp: lower_bound_def find_None_iff)

lemma lower_bound_Some:
  assumes "lower_bound luts h = Some (k, m)"
  shows "(k, m) \<in> set luts \<and> h \<le> k"
proof -
  obtain i where i: "i < length luts" "luts ! i = (k, m)" and "\<not> k < h"
    using assms unfolding lower_bound_def find_Some_iff by auto
  then have "h \<le> k" by simp
  moreover have "(k, m) \<in> set luts" using i nth_mem by metis
  ultimately show ?thesis by simp
qed

section \<open>Claims about the mesh builder\<close>

text \<open>
  Claim C1, as amended. For every mesh that the builder returns and every node
  \<open>i\<close> of it, the horizontal links are symmetric: the node reached through the L
  link of \<open>i\<close> links back to \<open>i\<close> through its R link, and the node reached
  through the R link links back through its L link. The vertical links
  (TL, TR, BL, BR) carry no such guarantee.
\<close>

theorem horizontal_neighbour_symmetry:
  assumes "build_mesh phis = Inr m" and "i < length (nodes m)"
  shows "neighbour_symmetric_at m i 2 \<and> neighbour_symmetric_at m i 3"
proof -
  obtain lut0 rws where st: "stitch lut0 rws = Inr m" and six: "six_slots lut0"
    and sym: "lr_symmetric lut0"
    using build_mesh_parts[OF assms(1)] by blast
  have "lr_symmetric (nodes m)"
    using touch_lr_symmetric[OF stitch_touch[OF st six] sym] .
  then show ?thesis
    using assms(2) unfolding lr_symmetric_def neighbour_symmetric_at_def complementary_def Let_def
    by simp
qed

text \<open>The theorem at node \<open>0\<close> of the mesh of two rows of three nodes.\<close>

theorem horizontal_neighbour_symmetry_witness:
  "build_mesh [(1 / 2, 3), (1, 3)] = Inr (projr (build_mesh [(1 / 2, 3), (1, 3)])) \<and>
   0 < length (nodes (projr (build_mesh [(1 / 2, 3), (1, 3)]))) \<and>
   neighbour_symmetric_at (projr (build_mesh [(1 / 2, 3), (1, 3)])) 0 2 \<and>
   neighbour_symmetric_at (projr (build_mesh [(1 / 2, 3), (1, 3)])) 0 3"
  using horizontal_neighbour_symmetry[OF example_mesh_3_3, where i = 0]
  by (simp add: example_mesh_3_3)

text \<open>
  The claim as stated fails on the mesh of two rows of three nodes: node \<open>0\<close> is on
  the first row, its BR link (slot 5, not a pole link of that row) leads to node
  \<open>4\<close>, and node \<open>4\<close> has node \<open>0\<close> neither in its TL slot nor in any other slot.
\<close>

theorem neighbour_symmetry_counterexample:
  "\<not> isl (build_mesh [(1 / 2, 3), (1, 3)]) \<and>
   length (rows (projr (build_mesh [(1 / 2, 3), (1, 3)]))) = 2 \<and>
   \<not> pole_exception (projr (build_mesh [(1 / 2, 3), (1, 3)])) 0 5 \<and>
   \<not> neighbour_symmetric_at (projr (build_mesh [(1 / 2, 3), (1, 3)])) 0 5 \<and>
   \<not> listed_by_neighbour (projr (build_mesh [(1 / 2, 3), (1, 3)])) 0 5"
  by (simp add: example_mesh_3_3 pole_exception_def neighbour_symmetric_at_def
        listed_by_neighbour_def complementary_def)

text \<open>
  Claim C4. The claim asks that a mesh of zero rows or of a single row is built
  without any out-of-range access. The code reads out of range in both cases:
  with no row, the bound \<^verbatim>\<open>rows.size() - 1\<close> of the middle-row loop wraps to
  \<open>2^64 - 1\<close> and the first iteration reads \<^verbatim>\<open>rows[0]\<close>; with one row, the first
  row is linked to \<^verbatim>\<open>rows[1]\<close>.
\<close>

theorem build_mesh_no_row_or_one_row_out_of_bounds:
  "build_mesh [] = Inl OutOfBounds \<and> build_mesh [(1, 4)] = Inl OutOfBounds"
proof
  show "build_mesh [] = Inl OutOfBounds"
    by (simp add: build_mesh_def stitch_empty)
  show "build_mesh [(1, 4)] = Inl OutOfBounds"
    by code_simp
qed






section \<open>Claims about the frustum lookup\<close>

text \<open>
  Claim C2, as amended. When the equirectangular \<open>theta_limits\<close> collects an odd
  number of intersection thetas for the phi of some row, it throws a runtime
  error that carries only the fixed message \<^verbatim>\<open>Odd number of intersections found
  with cone\<close>; the lookup has no handler for it, so the whole lookup ends with an
  error (that one, or the undefined conversion of a negative index met on an
  earlier row) and returns no ranges.
\<close>

theorem odd_intersections_abort_lookup:
  assumes "lower_bound luts h = Some (k, mesh)" and "row \<in> set (rows mesh)"
    and "odd (length (snd (collect_limits (edge_solutions num (phi row)) [0, 1, 2, 3] (0, []))))"
  shows "equirectangular_theta_limits num (phi row) = Inl odd_intersections \<and>
         (lookup_equirectangular luts h num = Inl odd_intersections \<or>
          lookup_equirectangular luts h num = Inl NegativeToUnsigned)"
proof -
  have t: "equirectangular_theta_limits num (phi row) = Inl odd_intersections"
    using equirectangular_theta_limits_odd[OF assms(3)] .
  have "rows_loop (equirectangular_theta_limits num) (rows mesh) [] = Inl odd_intersections \<or>
        rows_loop (equirectangular_theta_limits num) (rows mesh) [] = Inl NegativeToUnsigned"
    using rows_loop_failing_row[where theta_limits = "equirectangular_theta_limits num"
            and e = odd_intersections, OF assms(2) t]
      equirectangular_theta_limits_error by blast
  then show ?thesis
    using t assms(1) by (auto simp: lookup_equirectangular_def VisualMesh_lookup_def)
qed

text \<open>
  The theorem on the mesh of two rows of three nodes (phi \<open>1/2\<close> and \<open>1\<close>), stored
  for height \<open>1\<close>, with one intersection found on the first row.
\<close>

theorem odd_intersections_abort_lookup_witness:
  "lower_bound [(1, projr (build_mesh [(1 / 2, 3), (1, 3)]))] 1 =
     Some (1, projr (build_mesh [(1 / 2, 3), (1, 3)])) \<and>
   \<lparr>phi = 1 / 2, row_begin = 0, row_end = 3\<rparr> \<in> set (rows (projr (build_mesh [(1 / 2, 3), (1, 3)]))) \<and>
   lookup_equirectangular [(1, projr (build_mesh [(1 / 2, 3), (1, 3)]))] 1
     \<lparr>edge_solutions = (\<lambda>ph i. if i = 0 then (if ph = 1 / 2 then Intersections [1]
                                              else Intersections [1, 3])
                               else ComplexSolution),
      same_side = (\<lambda>ph. True), external0 = (\<lambda>ph. False), outside = (\<lambda>ph theta. False)\<rparr>
     = Inl odd_intersections"
  using odd_intersections_abort_lookup
          [where luts = "[(1, projr (build_mesh [(1 / 2, 3), (1, 3)]))]" and h = 1 and k = 1
              and mesh = "projr (build_mesh [(1 / 2, 3), (1, 3)])"
              and row = "\<lparr>phi = 1 / 2, row_begin = 0, row_end = 3\<rparr>"
              and num = "\<lparr>edge_solutions = (\<lambda>ph i. if i = 0 then (if ph = 1 / 2 then Intersections [1]
                                              else Intersections [1, 3])
                               else ComplexSolution),
                same_side = (\<lambda>ph. True), external0 = (\<lambda>ph. False),
                outside = (\<lambda>ph theta. False)\<rparr>"]
  by (simp add: example_mesh_3_3 lower_bound_def odd_intersections_def
        lookup_equirectangular_def VisualMesh_lookup_def equirectangular_theta_limits_def)

text \<open>
  The claim as stated fails there. The error is the bare message, the same value
  for the row at phi \<open>1/2\<close> with the single intersection \<open>[1]\<close> and for phi \<open>3/4\<close>
  with the intersections \<open>[1, 2, 3]\<close>; and the lookup returns that error, where
  skipping the row would return the range \<open>[4, 5)\<close> of the second row.
\<close>

theorem skip_row_policy_counterexample:
  "equirectangular_theta_limits
     \<lparr>edge_solutions = (\<lambda>ph i. if ph = 3 / 4 then (if i = 0 then Intersections [1, 2]
                                                   else if i = 1 then Intersections [3]
                                                   else ComplexSolution)
                               else if i = 0 then (if ph = 1 / 2 then Intersections [1]
                                                   else Intersections [1, 3])
                               else ComplexSolution),
      same_side = (\<lambda>ph. True), external0 = (\<lambda>ph. False), outside = (\<lambda>ph theta. False)\<rparr> (1 / 2)
     = Inl (RuntimeError ''Odd number of intersections found with cone'') \<and>
   equirectangular_theta_limits
     \<lparr>edge_solutions = (\<lambda>ph i. if ph = 3 / 4 then (if i = 0 then Intersections [1, 2]
                                                   else if i = 1 then Intersections [3]
                                                   else ComplexSolution)
                               else if i = 0 then (if ph = 1 / 2 then Intersections [1]
                                                   else Intersections [1, 3])
                               else ComplexSolution),
      same_side = (\<lambda>ph. True), external0 = (\<lambda>ph. False), outside = (\<lambda>ph theta. False)\<rparr> (3 / 4)
     = Inl (RuntimeError ''Odd number of intersections found with cone'') \<and>
   lookup_equirectangular [(1, projr (build_mesh [(1 / 2, 3), (1, 3)]))] 1
     \<lparr>edge_solutions = (\<lambda>ph i. if ph = 3 / 4 then (if i = 0 then Intersections [1, 2]
                                                   else if i = 1 then Intersections [3]
                                                   else ComplexSolution)
                               else if i = 0 then (if ph = 1 / 2 then Intersections [1]
                                                   else Intersections [1, 3])
                               else ComplexSolution),
      same_side = (\<lambda>ph. True), external0 = (\<lambda>ph. False), outside = (\<lambda>ph theta. False)\<rparr>
     = Inl (RuntimeError ''Odd number of intersections found with cone'') \<and>
   spec_lookup_skipping [(1, projr (build_mesh [(1 / 2, 3), (1, 3)]))] 1
     (equirectangular_theta_limits
        \<lparr>edge_solutions = (\<lambda>ph i. if ph = 3 / 4 then (if i = 0 then Intersections [1, 2]
                                                      else if i = 1 then Intersections [3]
                                                      else ComplexSolution)
                                  else if i = 0 then (if ph = 1 / 2 then Intersections [1]
                                                      else Intersections [1, 3])
                                  else ComplexSolution),
         same_side = (\<lambda>ph. True), external0 = (\<lambda>ph. False), outside = (\<lambda>ph theta. False)\<rparr>)
     = Inr (projr (build_mesh [(1 / 2, 3), (1, 3)]), [(4, 5)])"
  by (simp add: example_mesh_3_3 lower_bound_def lookup_equirectangular_def VisualMesh_lookup_def
        spec_lookup_skipping_def equirectangular_theta_limits_def odd_intersections_def
        add_range_def to_size_t_def size_t_sub_def M_PI_def Let_def ceiling_rat_numeral)



text \<open>
  Claim C10. \<^verbatim>\<open>height\<close> and \<^verbatim>\<open>lookup\<close> dereference \<^verbatim>\<open>luts.lower_bound(height)\<close>
  without comparing it to the end: when every stored height is below the query
  height the access is out of bounds, and a result exists only if some stored
  height is at least the query height.
\<close>

theorem lower_bound_dereferenced_unchecked:
  "((\<forall>k\<in>fst ` set luts. k < h) \<longrightarrow>
       VisualMesh_height luts h = Inl OutOfBounds \<and>
       VisualMesh_lookup luts h theta_limits = Inl OutOfBounds) \<and>
   (VisualMesh_height luts h = Inr mesh \<longrightarrow> (\<exists>k\<in>fst ` set luts. h \<le> k)) \<and>
   (VisualMesh_lookup luts h theta_limits = Inr res \<longrightarrow> (\<exists>k\<in>fst ` set luts. h \<le> k))"
proof (intro conjI impI)
  assume "\<forall>k\<in>fst ` set luts. k < h"
  then have n: "lower_bound luts h = None" by (simp add: lower_bound_None)
  show "VisualMesh_height luts h = Inl OutOfBounds" by (simp add: VisualMesh_height_def n)
  show "VisualMesh_lookup luts h theta_limits = Inl OutOfBounds"
    by (simp add: VisualMesh_lookup_def n)
next
  assume "VisualMesh_height luts h = Inr mesh"
  then obtain k m where "lower_bound luts h = Some (k, m)"
    by (auto simp: VisualMesh_height_def split: option.splits)
  then have "(k, m) \<in> set luts \<and> h \<le> k" by (rule lower_bound_Some)
  then show "\<exists>k\<in>fst ` set luts. h \<le> k" by force
next
  assume "VisualMesh_lookup luts h theta_limits = Inr res"
  then obtain k m where "lower_bound luts h = Some (k, m)"
    by (auto simp: VisualMesh_lookup_def split: option.splits)
  then have "(k, m) \<in> set luts \<and> h \<le> k" by (rule lower_bound_Some)
  then show "\<exists>k\<in>fst ` set luts. h \<le> k" by force
qed

text \<open>
  The theorem with the mesh of two rows of three nodes stored for height \<open>1\<close>:
  the query height \<open>2\<close> is out of bounds, the query height \<open>1\<close> finds the mesh.
\<close>

theorem lower_bound_dereferenced_unchecked_witness:
  "VisualMesh_height [(1, projr (build_mesh [(1 / 2, 3), (1, 3)]))] 2 = Inl OutOfBounds \<and>
   VisualMesh_lookup [(1, projr (build_mesh [(1 / 2, 3), (1, 3)]))] 2 (\<lambda>ph. Inr []) = Inl OutOfBounds \<and>
   VisualMesh_height [(1, projr (build_mesh [(1 / 2, 3), (1, 3)]))] 1 =
     Inr (projr (build_mesh [(1 / 2, 3), (1, 3)]))"
  using lower_bound_dereferenced_unchecked
          [where luts = "[(1, projr (build_mesh [(1 / 2, 3), (1, 3)]))]" and h = 2
              and theta_limits = "\<lambda>ph. Inr []"]
        lower_bound_dereferenced_unchecked
          [where luts = "[(1, projr (build_mesh [(1 / 2, 3), (1, 3)]))]" and h = 1
              and theta_limits = "\<lambda>ph. Inr []"
              and mesh = "projr (build_mesh [(1 / 2, 3), (1, 3)])"]
  by (simp add: VisualMesh_height_def lower_bound_def)

section \<open>Claims about the mesh cache\<close>

text \<open>
  Claim C3. The claim bounds the cache by its capacity. The code evicts while
  the size exceeds the capacity and then appends the new mesh, so the cache can
  hold one entry more than its capacity: two calls with capacity \<open>1\<close> and
  different maximum distances, starting from the empty cache, leave two
  entries, and a third such call keeps two.
\<close>

theorem cache_exceeds_capacity:
  "get_mesh (\<lambda>h_0 h_1. 1) [] 1 4 (1 / 2) 1 10 =
     Inr ([\<lparr>mesh_h = 1, mesh_k = 4, mesh_max_distance = 10\<rparr>],
          \<lparr>mesh_h = 1, mesh_k = 4, mesh_max_distance = 10\<rparr>) \<and>
   get_mesh (\<lambda>h_0 h_1. 1) [\<lparr>mesh_h = 1, mesh_k = 4, mesh_max_distance = 10\<rparr>] 1 4 (1 / 2) 1 20 =
     Inr ([\<lparr>mesh_h = 1, mesh_k = 4, mesh_max_distance = 10\<rparr>,
           \<lparr>mesh_h = 1, mesh_k = 4, mesh_max_distance = 20\<rparr>],
          \<lparr>mesh_h = 1, mesh_k = 4, mesh_max_distance = 20\<rparr>) \<and>
   get_mesh (\<lambda>h_0 h_1. 1)
     [\<lparr>mesh_h = 1, mesh_k = 4, mesh_max_distance = 10\<rparr>,
      \<lparr>mesh_h = 1, mesh_k = 4, mesh_max_distance = 20\<rparr>] 1 4 (1 / 2) 1 30 =
     Inr ([\<lparr>mesh_h = 1, mesh_k = 4, mesh_max_distance = 10\<rparr>,
           \<lparr>mesh_h = 1, mesh_k = 4, mesh_max_distance = 30\<rparr>],
          \<lparr>mesh_h = 1, mesh_k = 4, mesh_max_distance = 30\<rparr>) \<and>
   (1 :: int) < int (length [\<lparr>mesh_h = 1, mesh_k = 4, mesh_max_distance = 10\<rparr>,
                            \<lparr>mesh_h = 1, mesh_k = 4, mesh_max_distance = 30\<rparr>])"
  by (simp add: get_mesh_def find_mesh_def mesh_k_error_def scalar_max_def evict.simps Let_def)

text \<open>
  Claim C6. The claim has the handle just returned at position \<open>0\<close> of the cache.
  The code appends a newly built mesh at the back: with one cached mesh and a
  miss, the new mesh is returned and sits at position \<open>1\<close>. On a hit away from the
  front the best entry is exchanged with the front entry, and the handle
  returned is read through the iterator after the exchange: with the meshes for
  maximum distances \<open>10\<close> and \<open>20\<close> cached and a request for \<open>20\<close>, the mesh for \<open>20\<close>
  moves to position \<open>0\<close> and the mesh for \<open>10\<close>, now at position \<open>1\<close>, is returned.
\<close>

theorem returned_handle_not_at_front:
  "get_mesh (\<lambda>h_0 h_1. 1) [\<lparr>mesh_h = 1, mesh_k = 4, mesh_max_distance = 10\<rparr>] 1 4 (1 / 2) 4 20 =
     Inr ([\<lparr>mesh_h = 1, mesh_k = 4, mesh_max_distance = 10\<rparr>,
           \<lparr>mesh_h = 1, mesh_k = 4, mesh_max_distance = 20\<rparr>],
          \<lparr>mesh_h = 1, mesh_k = 4, mesh_max_distance = 20\<rparr>) \<and>
   get_mesh (\<lambda>h_0 h_1. 1)
     [\<lparr>mesh_h = 1, mesh_k = 4, mesh_max_distance = 10\<rparr>,
      \<lparr>mesh_h = 1, mesh_k = 4, mesh_max_distance = 20\<rparr>] 1 4 (1 / 2) 4 20 =
     Inr ([\<lparr>mesh_h = 1, mesh_k = 4, mesh_max_distance = 20\<rparr>,
           \<lparr>mesh_h = 1, mesh_k = 4, mesh_max_distance = 10\<rparr>],
          \<lparr>mesh_h = 1, mesh_k = 4, mesh_max_distance = 10\<rparr>)"
  by (simp add: get_mesh_def find_mesh_def mesh_k_error_def scalar_max_def evict.simps Let_def)

section \<open>Claims about the op kernel\<close>

text \<open>
  Claim C9. Two invocations of \<open>Compute\<close> whose inputs differ only in the value
  held by the \<^verbatim>\<open>cached_meshes\<close> tensor (same shape, any other elements), from the
  same cache state, have the same result: the same error, or the same new cache
  state and the same outputs. The capacity handed to \<open>get_mesh\<close> is read from the
  \<^verbatim>\<open>n_intersections\<close> tensor.
\<close>

theorem cached_meshes_input_ignored:
  "Compute env st (inp\<lparr>in_cached_meshes := (in_cached_meshes inp)\<lparr>elems := v\<rparr>\<rparr>) = Compute env st inp"
proof -
  have "check_shapes (inp\<lparr>in_cached_meshes := (in_cached_meshes inp)\<lparr>elems := v\<rparr>\<rparr>) = check_shapes inp"
    by (simp add: check_shapes_def IsScalar_def)
  then show ?thesis by (simp add: Compute_def cong: option.case_cong)
qed

text \<open>
  The theorem on a request for a sphere mesh from the empty caches, with the
  capacity \<open>2\<close> read from the \<^verbatim>\<open>n_intersections\<close> tensor: the \<^verbatim>\<open>cached_meshes\<close> tensor
  holds \<open>100\<close> and is replaced by one that holds \<open>3\<close>; the result is the one of the
  original inputs.
\<close>

theorem cached_meshes_input_ignored_witness:
  "Compute
     \<lparr>read_int32 = (\<lambda>t. Inr 2), sphere_k = (\<lambda>r h_0 h_1. 1), circle_k = (\<lambda>r h_0 h_1. 1),
      project = (\<lambda>mesh Hoc lens. Inr \<lparr>pixel_coordinates = [(5, 7)], neighbourhood = [[0, 0]]\<rparr>)\<rparr>
     \<lparr>sphere_meshes = [], circle_meshes = []\<rparr>
     (\<lparr>in_image_dimensions = \<lparr>dims = [2], elems = (\<lambda>i. 10)\<rparr>,
       in_lens_type = \<lparr>dims = [], elems = (\<lambda>i. ''EQUISOLID'')\<rparr>,
       in_lens_focal_length = \<lparr>dims = [], elems = (\<lambda>i. 1)\<rparr>,
       in_lens_fov = \<lparr>dims = [], elems = (\<lambda>i. 1)\<rparr>,
       in_lens_centre = \<lparr>dims = [2], elems = (\<lambda>i. 0)\<rparr>,
       in_cam_to_observation_plane = \<lparr>dims = [3, 3], elems = (\<lambda>i. 0)\<rparr>,
       in_height = \<lparr>dims = [], elems = (\<lambda>i. 1)\<rparr>,
       in_n_intersections = \<lparr>dims = [], elems = (\<lambda>i. 4)\<rparr>,
       in_cached_meshes = \<lparr>dims = [], elems = (\<lambda>i. 100)\<rparr>,
       in_intersection_tolerance = \<lparr>dims = [], elems = (\<lambda>i. 1 / 2)\<rparr>,
       in_max_distance = \<lparr>dims = [], elems = (\<lambda>i. 10)\<rparr>,
       in_geometry = \<lparr>dims = [], elems = (\<lambda>i. ''SPHERE'')\<rparr>,
       in_radius = \<lparr>dims = [], elems = (\<lambda>i. 1)\<rparr>\<rparr>
      \<lparr>in_cached_meshes := \<lparr>dims = [], elems = (\<lambda>i. 3)\<rparr>\<rparr>)
   = Inr (\<lparr>sphere_meshes = [\<lparr>mesh_h = 1, mesh_k = 4, mesh_max_distance = 10\<rparr>],
           circle_meshes = []\<rparr>,
          \<lparr>pixels_dims = [1, 2],
           pixels_writes = [((0, 0), 7), ((0, 1), 5)],
           neighbours_dims = [1, 2],
           neighbours_writes = [((0, 0), 0), ((0, 1), 0), ((0, 2), 0)]\<rparr>)"
  using cached_meshes_input_ignored
          [where env = "\<lparr>read_int32 = (\<lambda>t. Inr 2), sphere_k = (\<lambda>r h_0 h_1. 1), circle_k = (\<lambda>r h_0 h_1. 1),
                project = (\<lambda>mesh Hoc lens.
                  Inr \<lparr>pixel_coordinates = [(5, 7)], neighbourhood = [[0, 0]]\<rparr>)\<rparr>"
              and st = "\<lparr>sphere_meshes = [], circle_meshes = []\<rparr>"
              and inp = "\<lparr>in_image_dimensions = \<lparr>dims = [2], elems = (\<lambda>i. 10)\<rparr>,
                in_lens_type = \<lparr>dims = [], elems = (\<lambda>i. ''EQUISOLID'')\<rparr>,
                in_lens_focal_length = \<lparr>dims = [], elems = (\<lambda>i. 1)\<rparr>,
                in_lens_fov = \<lparr>dims = [], elems = (\<lambda>i. 1)\<rparr>,
                in_lens_centre = \<lparr>dims = [2], elems = (\<lambda>i. 0)\<rparr>,
                in_cam_to_observation_plane = \<lparr>dims = [3, 3], elems = (\<lambda>i. 0)\<rparr>,
                in_height = \<lparr>dims = [], elems = (\<lambda>i. 1)\<rparr>,
                in_n_intersections = \<lparr>dims = [], elems = (\<lambda>i. 4)\<rparr>,
                in_cached_meshes = \<lparr>dims = [], elems = (\<lambda>i. 100)\<rparr>,
                in_intersection_tolerance = \<lparr>dims = [], elems = (\<lambda>i. 1 / 2)\<rparr>,
                in_max_distance = \<lparr>dims = [], elems = (\<lambda>i. 10)\<rparr>,
                in_geometry = \<lparr>dims = [], elems = (\<lambda>i. ''SPHERE'')\<rparr>,
                in_radius = \<lparr>dims = [], elems = (\<lambda>i. 1)\<rparr>\<rparr>"
              and v = "\<lambda>i. 3"]
  by (simp add: Compute_def check_shapes_def IsScalar_def IsVector_def IsSquareMatrix_def
        get_mesh_def find_mesh_def evict.simps fill_outputs_def Let_def)

end
